theory Spec2Isabelle
  imports Main
begin

section \<open>The extension lifecycle manager of \<^verbatim>\<open>djblets/extensions/base.py\<close>\<close>

text \<open>
  The development embeds the classes \<^verbatim>\<open>Settings\<close>, \<^verbatim>\<open>Extension\<close>, \<^verbatim>\<open>ExtensionInfo\<close>,
  \<^verbatim>\<open>ExtensionHook\<close>, \<^verbatim>\<open>ExtensionHookPoint\<close> and \<^verbatim>\<open>ExtensionManager\<close>. Mutation is
  explicit state passing over one record, exceptions are values, and every effect on a
  collaborator (file system, database, Django settings, signals) is appended to a log in
  the order in which the code performs it.
\<close>

subsection \<open>Data\<close>

type_synonym ext_id = string
type_synonym hook_kind = string

text \<open>A hook object: the hook point class it belongs to, and its object identity.\<close>
type_synonym hook = "hook_kind \<times> nat"

text \<open>A URL pattern object built by \<^verbatim>\<open>patterns(...)\<close>: its identity and the extension
  id that occurs in its regular expression.\<close>
type_synonym urlpattern = "nat \<times> ext_id"

type_synonym settings_dict = "string \<rightharpoonup> string"

datatype error =
    InvalidExtensionError ext_id
  | InstallExtensionError string
  | EnablingExtensionError string
  | OSError string
  | CommandError string
  | ImproperlyConfigured string
  | ValueError
  | KeyError
  | AttributeError
  | AssertionError
  | RuntimeError

datatype 'a result = Return 'a | Raise error

text \<open>\<^verbatim>\<open>RegisteredExtension\<close>, the persisted row. Reading \<^verbatim>\<open>settings\<close> yields the
  deserialized mapping, or raises \<^verbatim>\<open>ValueError\<close> when the stored blob does not parse
  (\<open>None\<close>).\<close>
record registered_extension =
  name :: string
  enabled :: bool
  installed :: bool
  settings :: "settings_dict option"

text \<open>\<^verbatim>\<open>ExtensionInfo\<close>. The attribute \<^verbatim>\<open>requirements\<close> does not exist until
  \<^verbatim>\<open>load\<close> assigns it in its second loop (\<open>None\<close>); it then holds the required
  extension classes, which are identified by their ids.\<close>
record extension_info =
  info_name :: string
  info_app_name :: string
  info_htdocs_path :: string
  info_enabled :: bool
  info_installed :: bool
  info_requirements :: "ext_id list option"

text \<open>
  What an extension package defines, and how the collaborators answer for it:
  \<^item> \<open>requirements\<close>, \<open>is_configurable\<close>: the class attributes;
  \<^item> \<open>project_name\<close>, \<open>app_name\<close>, \<open>htdocs_path\<close>: what \<^verbatim>\<open>ExtensionInfo.__init__\<close> derives;
  \<^item> \<open>has_htdocs\<close>: \<^verbatim>\<open>pkg_resources.resource_exists(module, "htdocs")\<close>;
  \<^item> \<open>admin_urlconf\<close>: \<open>None\<close> when importing \<^verbatim>\<open>admin_urls\<close> fails, else whether the
    module has \<^verbatim>\<open>urlpatterns\<close>;
  \<^item> \<open>ctor_hooks\<close>: the hook points for which the constructor of the extension creates a
    hook, in order;
  \<^item> \<open>copytree_error\<close>, \<open>syncdb_error\<close>, \<open>evolve_error\<close>: the exception message when
    \<^verbatim>\<open>shutil.copytree\<close>, \<^verbatim>\<open>call_command('syncdb')\<close>, \<^verbatim>\<open>Evolution().evolve\<close> fail for
    this extension, \<open>None\<close> when they succeed.
\<close>
record ext_class_def =
  requirements :: "ext_id list"
  is_configurable :: bool
  project_name :: string
  app_name :: string
  htdocs_path :: string
  has_htdocs :: bool
  admin_urlconf :: "bool option"
  ctor_hooks :: "hook_kind list"
  copytree_error :: "string option"
  syncdb_error :: "string option"
  evolve_error :: "string option"

text \<open>An extension class once \<^verbatim>\<open>load\<close> has attached \<^verbatim>\<open>info\<close> and \<^verbatim>\<open>registration\<close>.\<close>
record ext_class = ext_class_def +
  info :: extension_info
  registration :: registered_extension

text \<open>An \<^verbatim>\<open>Extension\<close> instance. \<^verbatim>\<open>hooks\<close> is a Python set: the list gives the order in
  which \<^verbatim>\<open>shutdown\<close> iterates over it. \<^verbatim>\<open>admin_urlpatterns\<close> exists only after
  \<^verbatim>\<open>_install_admin_urls\<close> has set it.\<close>
record extension =
  hooks :: "hook list"
  ext_settings :: settings_dict
  admin_urlpatterns :: "urlpattern list option"

datatype event =
    Rmtree string
  | Copytree string
  | RegistrationSave ext_id bool bool
  | Syncdb
  | Evolve
  | AddHook hook
  | RemoveHook hook
  | UrlPatternsExtend "urlpattern list"
  | UrlPatternRemove urlpattern
  | InstalledAppsAppend string
  | InstalledAppsRemove string
  | ResetTemplatetagsCache
  | InstanceRegistered ext_id
  | InstanceDeleted ext_id
  | ExtensionInitialized ext_id
  | ExtensionUninitialized ext_id

text \<open>
  The manager together with the process-wide state it touches.
  \<^item> \<open>extension_classes\<close>: \<^verbatim>\<open>_extension_classes\<close>, in the order \<^verbatim>\<open>iteritems()\<close> yields it
    (the key of a class is its id);
  \<^item> \<open>orphan_classes\<close>: classes deleted from \<^verbatim>\<open>_extension_classes\<close>; the class objects
    stay loaded and keep their \<^verbatim>\<open>info\<close> and \<^verbatim>\<open>registration\<close>;
  \<^item> \<open>extension_instances\<close>: \<^verbatim>\<open>_extension_instances\<close>;
  \<^item> \<open>url_patterns\<close>: \<^verbatim>\<open>_admin_ext_resolver.url_patterns\<close>;
  \<^item> \<open>installed_apps\<close>: \<^verbatim>\<open>settings.INSTALLED_APPS\<close>;
  \<^item> \<open>hook_points\<close>: the list \<^verbatim>\<open>hooks\<close> of every \<^verbatim>\<open>ExtensionHookPoint\<close> class;
  \<^item> \<open>fs\<close>: the directories that exist under \<^verbatim>\<open>EXTENSIONS_STATIC_ROOT\<close>;
  \<^item> \<open>db\<close>: the table of \<^verbatim>\<open>RegisteredExtension\<close>;
  \<^item> \<open>next_oid\<close>: the identity the next constructed object gets.
\<close>
record manager =
  extension_classes :: "(ext_id \<times> ext_class) list"
  orphan_classes :: "ext_id \<rightharpoonup> ext_class"
  extension_instances :: "ext_id \<rightharpoonup> extension"
  url_patterns :: "urlpattern list"
  installed_apps :: "string list"
  hook_points :: "hook_kind \<Rightarrow> hook list"
  fs :: "string set"
  db :: "ext_id \<rightharpoonup> registered_extension"
  next_oid :: nat
  events :: "event list"

subsection \<open>Settings\<close>

text \<open>\<^verbatim>\<open>Settings.load\<close>: \<^verbatim>\<open>self.update(self.extension.registration.settings)\<close>, with
  \<^verbatim>\<open>ValueError\<close> caught and dropped. \<^verbatim>\<open>dict.update\<close> keeps the keys it does not
  overwrite.\<close>
definition Settings_load :: "registered_extension \<Rightarrow> settings_dict \<Rightarrow> unit result \<times> settings_dict" where
  "Settings_load reg self =
     (case settings reg of
        None \<Rightarrow> (Return (), self)
      | Some blob \<Rightarrow> (Return (), self ++ blob))"

text \<open>\<^verbatim>\<open>Settings.__init__\<close>: an empty dict, then \<^verbatim>\<open>load\<close>.\<close>
definition Settings_init :: "registered_extension \<Rightarrow> unit result \<times> settings_dict" where
  "Settings_init reg = Settings_load reg Map.empty"

text \<open>\<^verbatim>\<open>Settings.save\<close>: \<^verbatim>\<open>registration.settings = dict(self)\<close>; the caller persists the
  returned row.\<close>
definition Settings_save :: "settings_dict \<Rightarrow> registered_extension \<Rightarrow> registered_extension" where
  "Settings_save self reg = reg\<lparr>settings := Some self\<rparr>"

subsection \<open>Helpers on the state\<close>

definition log :: "event \<Rightarrow> manager \<Rightarrow> manager" where
  "log e s = s\<lparr>events := events s @ [e]\<rparr>"

text \<open>\<^verbatim>\<open>self._extension_classes[k]\<close>, \<open>None\<close> when \<open>k\<close> is not a key.\<close>
definition lookup_class :: "manager \<Rightarrow> ext_id \<Rightarrow> ext_class option" where
  "lookup_class s k = map_of (extension_classes s) k"

text \<open>An attribute assignment on the class object with id \<open>k\<close>.\<close>
definition update_class :: "ext_id \<Rightarrow> (ext_class \<Rightarrow> ext_class) \<Rightarrow> manager \<Rightarrow> manager" where
  "update_class k f s =
     s\<lparr>extension_classes :=
          map (\<lambda>(k', c). if k' = k then (k', f c) else (k', c)) (extension_classes s)\<rparr>"

text \<open>The class object as it is now, for a reference \<open>c\<close> taken earlier.\<close>
definition current_class :: "manager \<Rightarrow> ext_id \<Rightarrow> ext_class \<Rightarrow> ext_class" where
  "current_class s k c = (case lookup_class s k of Some c' \<Rightarrow> c' | None \<Rightarrow> c)"

definition set_registration ::
  "ext_id \<Rightarrow> (registered_extension \<Rightarrow> registered_extension) \<Rightarrow> manager \<Rightarrow> manager" where
  "set_registration k f s = update_class k (\<lambda>c. c\<lparr>registration := f (registration c)\<rparr>) s"

definition set_info :: "ext_id \<Rightarrow> (ext_class \<Rightarrow> extension_info) \<Rightarrow> manager \<Rightarrow> manager" where
  "set_info k f s = update_class k (\<lambda>c. c\<lparr>info := f c\<rparr>) s"

text \<open>\<^verbatim>\<open>registration.save()\<close> of the class with id \<open>k\<close>.\<close>
definition registration_save :: "ext_id \<Rightarrow> manager \<Rightarrow> manager" where
  "registration_save k s =
     (case lookup_class s k of
        None \<Rightarrow> s
      | Some c \<Rightarrow>
          log (RegistrationSave k (enabled (registration c)) (installed (registration c)))
            (s\<lparr>db := (db s)(k \<mapsto> registration c)\<rparr>))"

text \<open>\<^verbatim>\<open>list.remove\<close> raises \<^verbatim>\<open>ValueError\<close> when the element is absent.\<close>
definition list_remove :: "'a \<Rightarrow> 'a list \<Rightarrow> 'a list option" where
  "list_remove x xs = (if x \<in> set xs then Some (remove1 x xs) else None)"

subsection \<open>Hooks\<close>

text \<open>\<^verbatim>\<open>ExtensionHookPoint.add_hook\<close> and \<^verbatim>\<open>remove_hook\<close>.\<close>
definition add_hook :: "hook \<Rightarrow> manager \<Rightarrow> manager" where
  "add_hook h s =
     log (AddHook h) (s\<lparr>hook_points := (hook_points s)(fst h := hook_points s (fst h) @ [h])\<rparr>)"

definition remove_hook :: "hook \<Rightarrow> manager \<Rightarrow> unit result \<times> manager" where
  "remove_hook h s =
     (case list_remove h (hook_points s (fst h)) of
        None \<Rightarrow> (Raise ValueError, s)
      | Some hs \<Rightarrow> (Return (), log (RemoveHook h) (s\<lparr>hook_points := (hook_points s)(fst h := hs)\<rparr>)))"

text \<open>\<^verbatim>\<open>ExtensionHook.__init__\<close>, once for every hook the constructor of the extension
  creates: the hook joins \<^verbatim>\<open>extension.hooks\<close> and the list of its hook point.\<close>
fun create_hooks :: "hook_kind list \<Rightarrow> extension \<Rightarrow> manager \<Rightarrow> extension \<times> manager" where
  "create_hooks [] e s = (e, s)"
| "create_hooks (kd # kds) e s =
     (let h = (kd, next_oid s)
      in create_hooks kds (e\<lparr>hooks := hooks e @ [h]\<rparr>)
           (add_hook h (s\<lparr>next_oid := Suc (next_oid s)\<rparr>)))"

text \<open>\<^verbatim>\<open>Extension.shutdown\<close>: \<^verbatim>\<open>hook.shutdown()\<close> for every hook of the instance.\<close>
fun shutdown :: "hook list \<Rightarrow> manager \<Rightarrow> unit result \<times> manager" where
  "shutdown [] s = (Return (), s)"
| "shutdown (h # hs) s =
     (case remove_hook h s of
        (Raise e, s1) \<Rightarrow> (Raise e, s1)
      | (Return _, s1) \<Rightarrow> shutdown hs s1)"

text \<open>\<^verbatim>\<open>ext_class()\<close>: \<^verbatim>\<open>Extension.__init__\<close> (no hooks, \<^verbatim>\<open>Settings(self)\<close>), then the
  hooks of the subclass.\<close>
definition Extension_init :: "ext_id \<Rightarrow> ext_class \<Rightarrow> manager \<Rightarrow> extension \<times> manager" where
  "Extension_init k c s =
     create_hooks (ctor_hooks c)
       \<lparr>hooks = [],
        ext_settings = snd (Settings_init (registration (current_class s k c))),
        admin_urlpatterns = None\<rparr> s"

subsection \<open>Installed apps, template tags, admin URLs\<close>

definition add_to_installed_apps :: "string \<Rightarrow> manager \<Rightarrow> manager" where
  "add_to_installed_apps a s =
     (if a \<in> set (installed_apps s) then s
      else log (InstalledAppsAppend a) (s\<lparr>installed_apps := installed_apps s @ [a]\<rparr>))"

definition remove_from_installed_apps :: "string \<Rightarrow> manager \<Rightarrow> manager" where
  "remove_from_installed_apps a s =
     (if a \<in> set (installed_apps s)
      then log (InstalledAppsRemove a) (s\<lparr>installed_apps := remove1 a (installed_apps s)\<rparr>)
      else s)"

definition reset_templatetags_cache :: "manager \<Rightarrow> manager" where
  "reset_templatetags_cache s = log ResetTemplatetagsCache s"

text \<open>\<^verbatim>\<open>_install_admin_urls\<close>. Reading \<^verbatim>\<open>extension.admin_urlconf\<close> raises
  \<^verbatim>\<open>ImproperlyConfigured\<close> when the import fails. The instance is already in
  \<^verbatim>\<open>_extension_instances\<close>, so the new attribute shows there too.\<close>
definition install_admin_urls ::
  "ext_id \<Rightarrow> ext_class \<Rightarrow> extension \<Rightarrow> manager \<Rightarrow> extension result \<times> manager" where
  "install_admin_urls k c e s =
     (case admin_urlconf c of
        None \<Rightarrow> (Raise (ImproperlyConfigured ''admin_urls''), s)
      | Some has_urlpatterns \<Rightarrow>
          if has_urlpatterns then
            (let p = (next_oid s, k);
                 e' = e\<lparr>admin_urlpatterns := Some [p]\<rparr>
             in (Return e',
                 log (UrlPatternsExtend [p])
                   (s\<lparr>next_oid := Suc (next_oid s),
                      extension_instances := (extension_instances s)(k \<mapsto> e'),
                      url_patterns := url_patterns s @ [p]\<rparr>)))
          else (Return e, s))"

text \<open>The loop of \<^verbatim>\<open>_uninit_extension\<close> over \<^verbatim>\<open>extension.admin_urlpatterns\<close>.\<close>
fun remove_urlpatterns :: "urlpattern list \<Rightarrow> manager \<Rightarrow> unit result \<times> manager" where
  "remove_urlpatterns [] s = (Return (), s)"
| "remove_urlpatterns (p # ps) s =
     (case list_remove p (url_patterns s) of
        None \<Rightarrow> (Raise ValueError, s)
      | Some ps' \<Rightarrow> remove_urlpatterns ps (log (UrlPatternRemove p) (s\<lparr>url_patterns := ps'\<rparr>)))"

subsection \<open>Install, uninstall, init, uninit\<close>

definition rmtree :: "string \<Rightarrow> manager \<Rightarrow> manager" where
  "rmtree p s = log (Rmtree p) (s\<lparr>fs := fs s - {p}\<rparr>)"

text \<open>\<^verbatim>\<open>_install_extension\<close>. Only a \<^verbatim>\<open>CommandError\<close> of \<^verbatim>\<open>evolve\<close> is turned into
  \<^verbatim>\<open>InstallExtensionError\<close>; the registration is marked installed and saved before
  \<^verbatim>\<open>syncdb\<close> runs, and again at the end.\<close>
definition install_extension :: "ext_id \<Rightarrow> ext_class \<Rightarrow> manager \<Rightarrow> unit result \<times> manager" where
  "install_extension k c s =
     (let ext_path = info_htdocs_path (info c);
          s1 = (if ext_path \<in> fs s then rmtree ext_path s else s)
      in case (if has_htdocs c
               then (case copytree_error c of
                       Some m \<Rightarrow> (Raise (OSError m), s1)
                     | None \<Rightarrow> (Return (), log (Copytree ext_path) (s1\<lparr>fs := insert ext_path (fs s1)\<rparr>)))
               else (Return (), s1)) of
           (Raise e, s2) \<Rightarrow> (Raise e, s2)
         | (Return _, s2) \<Rightarrow>
             (let s3 = registration_save k (set_registration k (\<lambda>r. r\<lparr>installed := True\<rparr>) s2);
                  s4 = add_to_installed_apps (info_app_name (info c)) s3
              in case syncdb_error c of
                   Some m \<Rightarrow> (Raise (CommandError m), s4)
                 | None \<Rightarrow>
                     (let s5 = log Syncdb s4
                      in case evolve_error c of
                           Some m \<Rightarrow> (Raise (InstallExtensionError m), s5)
                         | None \<Rightarrow>
                             (let s6 = log Evolve s5;
                                  s7 = remove_from_installed_apps (info_app_name (info c)) s6;
                                  s8 = registration_save k
                                         (set_registration k (\<lambda>r. r\<lparr>installed := True\<rparr>) s7)
                              in (Return (), s8)))))"

text \<open>\<^verbatim>\<open>_uninstall_extension\<close>.\<close>
definition uninstall_extension :: "ext_class \<Rightarrow> manager \<Rightarrow> manager" where
  "uninstall_extension c s =
     (let ext_path = info_htdocs_path (info c)
      in if ext_path \<in> fs s then rmtree ext_path s else s)"

text \<open>\<^verbatim>\<open>_init_extension\<close>.\<close>
definition init_extension :: "ext_id \<Rightarrow> ext_class \<Rightarrow> manager \<Rightarrow> extension result \<times> manager" where
  "init_extension k c s =
     (if k \<in> dom (extension_instances s) then (Raise AssertionError, s)
      else
        (let (e, s1) = Extension_init k c s;
             s2 = log (InstanceRegistered k)
                    (s1\<lparr>extension_instances := (extension_instances s1)(k \<mapsto> e)\<rparr>)
         in case (if is_configurable c then install_admin_urls k c e s2 else (Return e, s2)) of
              (Raise err, s3) \<Rightarrow> (Raise err, s3)
            | (Return e', s3) \<Rightarrow>
                (let s4 = set_info k (\<lambda>c'. (info c')\<lparr>info_installed := installed (registration c'),
                                                      info_enabled := True\<rparr>) s3;
                     s5 = add_to_installed_apps (info_app_name (info c)) s4;
                     s6 = reset_templatetags_cache s5;
                     s7 = log (ExtensionInitialized k) s6
                 in (Return e', s7))))"

text \<open>\<^verbatim>\<open>_uninit_extension\<close>, for the instance \<open>e\<close> of the class \<open>c\<close> with id \<open>k\<close>.\<close>
definition uninit_extension ::
  "ext_id \<Rightarrow> ext_class \<Rightarrow> extension \<Rightarrow> manager \<Rightarrow> unit result \<times> manager" where
  "uninit_extension k c e s =
     (case shutdown (hooks e) s of
        (Raise err, s1) \<Rightarrow> (Raise err, s1)
      | (Return _, s1) \<Rightarrow>
          (case (case admin_urlpatterns e of
                   None \<Rightarrow> (Return (), s1)
                 | Some ps \<Rightarrow> remove_urlpatterns ps s1) of
             (Raise err, s2) \<Rightarrow> (Raise err, s2)
           | (Return _, s2) \<Rightarrow>
               (let s3 = remove_from_installed_apps (info_app_name (info c)) s2;
                    s4 = reset_templatetags_cache s3;
                    s5 = set_info k (\<lambda>c'. (info c')\<lparr>info_enabled := False\<rparr>) s4;
                    s6 = log (ExtensionUninitialized k) s5
                in if k \<in> dom (extension_instances s6)
                   then (Return (),
                         log (InstanceDeleted k)
                           (s6\<lparr>extension_instances := (extension_instances s6)(k := None)\<rparr>))
                   else (Raise KeyError, s6))))"

subsection \<open>The manager\<close>

text \<open>\<^verbatim>\<open>get_enabled_extension\<close>.\<close>
definition get_enabled_extension :: "manager \<Rightarrow> ext_id \<Rightarrow> extension option" where
  "get_enabled_extension s k = extension_instances s k"

text \<open>\<^verbatim>\<open>get_installed_extension\<close>.\<close>
definition get_installed_extension :: "manager \<Rightarrow> ext_id \<Rightarrow> ext_class result" where
  "get_installed_extension s k =
     (case lookup_class s k of
        None \<Rightarrow> Raise (InvalidExtensionError k)
      | Some c \<Rightarrow> Return c)"

text \<open>The loop of \<^verbatim>\<open>get_dependent_extensions\<close> over \<^verbatim>\<open>_extension_classes.iteritems()\<close>:
  an id is appended once for every entry of its \<^verbatim>\<open>info.requirements\<close> that is the
  dependency; reading \<^verbatim>\<open>info.requirements\<close> before \<^verbatim>\<open>load\<close> has set it raises
  \<^verbatim>\<open>AttributeError\<close>.\<close>
fun dependents_scan :: "ext_id \<Rightarrow> (ext_id \<times> ext_class) list \<Rightarrow> ext_id list result" where
  "dependents_scan d [] = Return []"
| "dependents_scan d ((k, c) # rest) =
     (if k = d then dependents_scan d rest
      else case info_requirements (info c) of
             None \<Rightarrow> Raise AttributeError
           | Some rs \<Rightarrow>
               (case dependents_scan d rest of
                  Raise e \<Rightarrow> Raise e
                | Return ks \<Rightarrow> Return (map (\<lambda>_. k) (filter (\<lambda>r. r = d) rs) @ ks)))"

definition get_dependent_extensions :: "manager \<Rightarrow> ext_id \<Rightarrow> ext_id list result" where
  "get_dependent_extensions s d =
     (if d \<notin> dom (extension_instances s) then Raise (InvalidExtensionError d)
      else case get_installed_extension s d of
             Raise e \<Rightarrow> Raise e
           | Return _ \<Rightarrow> dependents_scan d (extension_classes s))"

text \<open>The handler of \<^verbatim>\<open>enable_extension\<close>:
  \<^verbatim>\<open>except InstallExtensionError, e: raise EnablingExtensionError(e.message)\<close>; any other
  exception passes through.\<close>
definition except_InstallExtensionError :: "error \<Rightarrow> error" where
  "except_InstallExtensionError e =
     (case e of InstallExtensionError m \<Rightarrow> EnablingExtensionError m | _ \<Rightarrow> e)"

text \<open>
  \<^verbatim>\<open>enable_extension\<close>, with the loop over \<^verbatim>\<open>ext_class.requirements\<close>. The first argument
  bounds the depth of the recursion; \<open>None\<close> means that the bound was reached. The value
  returned is \<open>None\<close> for the bare \<^verbatim>\<open>return\<close> of the first test and the instance for
  \<^verbatim>\<open>return self._init_extension(ext_class)\<close>.
\<close>
fun enable_extension :: "nat \<Rightarrow> ext_id \<Rightarrow> manager \<Rightarrow> (extension option result \<times> manager) option"
and enable_requirements :: "nat \<Rightarrow> ext_id list \<Rightarrow> manager \<Rightarrow> (unit result \<times> manager) option"
where
  "enable_extension 0 k s = None"
| "enable_extension (Suc n) k s =
     (if k \<in> dom (extension_instances s) then Some (Return None, s)
      else case lookup_class s k of
             None \<Rightarrow> Some (Raise (InvalidExtensionError k), s)
           | Some c \<Rightarrow>
               (case enable_requirements n (requirements c) s of
                  None \<Rightarrow> None
                | Some (Raise e, s1) \<Rightarrow> Some (Raise e, s1)
                | Some (Return _, s1) \<Rightarrow>
                    (case install_extension k c s1 of
                       (Raise e, s2) \<Rightarrow> Some (Raise (except_InstallExtensionError e), s2)
                     | (Return _, s2) \<Rightarrow>
                         (let s3 = registration_save k
                                     (set_registration k (\<lambda>r. r\<lparr>enabled := True\<rparr>) s2)
                          in case init_extension k c s3 of
                               (Raise e, s4) \<Rightarrow> Some (Raise e, s4)
                             | (Return e, s4) \<Rightarrow> Some (Return (Some e), s4)))))"
| "enable_requirements n [] s = Some (Return (), s)"
| "enable_requirements n (r # rs) s =
     (case enable_extension n r s of
        None \<Rightarrow> None
      | Some (Raise e, s1) \<Rightarrow> Some (Raise e, s1)
      | Some (Return _, s1) \<Rightarrow> enable_requirements n rs s1)"

text \<open>
  \<^verbatim>\<open>disable_extension\<close>, with the loop over \<^verbatim>\<open>get_dependent_extensions(extension_id)\<close>.
  The instance is read before the loop; \<^verbatim>\<open>_uninstall_extension\<close> runs before
  \<^verbatim>\<open>_uninit_extension\<close>.
\<close>
fun disable_extension :: "nat \<Rightarrow> ext_id \<Rightarrow> manager \<Rightarrow> (unit result \<times> manager) option"
and disable_dependents :: "nat \<Rightarrow> ext_id list \<Rightarrow> manager \<Rightarrow> (unit result \<times> manager) option"
where
  "disable_extension 0 k s = None"
| "disable_extension (Suc n) k s =
     (case extension_instances s k of
        None \<Rightarrow> Some (Return (), s)
      | Some e \<Rightarrow>
          (case lookup_class s k of
             None \<Rightarrow> Some (Raise (InvalidExtensionError k), s)
           | Some c \<Rightarrow>
               (case get_dependent_extensions s k of
                  Raise err \<Rightarrow> Some (Raise err, s)
                | Return ds \<Rightarrow>
                    (case disable_dependents n ds s of
                       None \<Rightarrow> None
                     | Some (Raise err, s1) \<Rightarrow> Some (Raise err, s1)
                     | Some (Return _, s1) \<Rightarrow>
                         (case uninit_extension k c e (uninstall_extension c s1) of
                            (Raise err, s2) \<Rightarrow> Some (Raise err, s2)
                          | (Return _, s2) \<Rightarrow>
                              Some (Return (),
                                    registration_save k
                                      (set_registration k (\<lambda>r. r\<lparr>enabled := False\<rparr>) s2)))))))"
| "disable_dependents n [] s = Some (Return (), s)"
| "disable_dependents n (d # ds) s =
     (case disable_extension n d s of
        None \<Rightarrow> None
      | Some (Raise err, s1) \<Rightarrow> Some (Raise err, s1)
      | Some (Return _, s1) \<Rightarrow> disable_dependents n ds s1)"

subsection \<open>Discovery\<close>

text \<open>An entry point of \<^verbatim>\<open>pkg_resources.iter_entry_points(self.key)\<close>. \<open>ep_load\<close> is
  \<open>None\<close> when \<^verbatim>\<open>entrypoint.load()\<close> or \<^verbatim>\<open>ExtensionInfo(...)\<close> raises, otherwise the id
  \<^verbatim>\<open>module.classname\<close> of the class and what the package defines.\<close>
record entrypoint =
  ep_name :: string
  ep_load :: "(ext_id \<times> ext_class_def) option"

text \<open>\<^verbatim>\<open>ExtensionInfo.__init__\<close>.\<close>
definition ExtensionInfo :: "ext_class_def \<Rightarrow> extension_info" where
  "ExtensionInfo d =
     \<lparr>info_name = project_name d, info_app_name = app_name d, info_htdocs_path = htdocs_path d,
      info_enabled = False, info_installed = False, info_requirements = None\<rparr>"

text \<open>Modelled from the spec: the defaults of a new \<^verbatim>\<open>RegisteredExtension\<close> row, whose
  model class is not part of the sources; a created record has \<open>installed = false\<close>,
  \<open>enabled = false\<close> and an empty settings mapping.\<close>
definition RegisteredExtension :: "string \<Rightarrow> registered_extension" where
  "RegisteredExtension nm =
     \<lparr>name = nm, enabled = False, installed = False, settings = Some Map.empty\<rparr>"

text \<open>
  One pass of the first loop of \<^verbatim>\<open>load\<close> for a class that loaded. The class object is
  the one already in \<^verbatim>\<open>_extension_classes\<close>, or the one deleted from it earlier, or a
  class seen for the first time, which gets its \<^verbatim>\<open>info\<close> and its \<^verbatim>\<open>registration\<close>
  (from the preloaded rows \<open>regs\<close>, else from the table, else created and saved).
\<close>
definition register_class ::
  "(ext_id \<rightharpoonup> registered_extension) \<Rightarrow> ext_id \<Rightarrow> ext_class_def \<Rightarrow> manager
     \<Rightarrow> ext_class \<times> manager" where
  "register_class regs k d s =
     (case lookup_class s k of
        Some c \<Rightarrow> (c, s)
      | None \<Rightarrow>
          (case orphan_classes s k of
             Some c \<Rightarrow>
               (c, s\<lparr>extension_classes := extension_classes s @ [(k, c)],
                     orphan_classes := (orphan_classes s)(k := None)\<rparr>)
           | None \<Rightarrow>
               (let new = (\<lambda>r. ext_class_def.extend d \<lparr>info = ExtensionInfo d, registration = r\<rparr>)
                in case regs k of
                     Some r \<Rightarrow> (new r, s\<lparr>extension_classes := extension_classes s @ [(k, new r)]\<rparr>)
                   | None \<Rightarrow>
                       (case db s k of
                          Some r \<Rightarrow>
                            (new r, s\<lparr>extension_classes := extension_classes s @ [(k, new r)]\<rparr>)
                        | None \<Rightarrow>
                            (let c = new (RegisteredExtension (project_name d))
                             in (c, registration_save k
                                      (s\<lparr>extension_classes := extension_classes s @ [(k, c)]\<rparr>)))))))"

text \<open>The first loop of \<^verbatim>\<open>load\<close>; the result is the list of keys of
  \<^verbatim>\<open>found_extensions\<close>.\<close>
fun load_entrypoints ::
  "(ext_id \<rightharpoonup> registered_extension) \<Rightarrow> entrypoint list \<Rightarrow> ext_id list \<Rightarrow> manager
     \<Rightarrow> ext_id list result \<times> manager" where
  "load_entrypoints regs [] found s = (Return found, s)"
| "load_entrypoints regs (ep # eps) found s =
     (case ep_load ep of
        None \<Rightarrow> load_entrypoints regs eps found s
      | Some (k, d) \<Rightarrow>
          (let (c, s1) = register_class regs k d s
           in if enabled (registration c) \<and> k \<notin> dom (extension_instances s1)
              then (case init_extension k c s1 of
                      (Raise e, s2) \<Rightarrow> (Raise e, s2)
                    | (Return _, s2) \<Rightarrow> load_entrypoints regs eps (found @ [k]) s2)
              else load_entrypoints regs eps (found @ [k]) s1))"

text \<open>The list comprehension that builds \<^verbatim>\<open>info.requirements\<close>.\<close>
fun resolve_requirements :: "manager \<Rightarrow> ext_id list \<Rightarrow> ext_id list result" where
  "resolve_requirements s [] = Return []"
| "resolve_requirements s (r # rs) =
     (case get_installed_extension s r of
        Raise e \<Rightarrow> Raise e
      | Return _ \<Rightarrow>
          (case resolve_requirements s rs of
             Raise e \<Rightarrow> Raise e
           | Return ks \<Rightarrow> Return (r # ks)))"

text \<open>\<^verbatim>\<open>del self._extension_classes[class_name]\<close>.\<close>
definition delete_class :: "ext_id \<Rightarrow> manager \<Rightarrow> manager" where
  "delete_class k s =
     s\<lparr>extension_classes := filter (\<lambda>(k', c). k' \<noteq> k) (extension_classes s),
       orphan_classes := (case lookup_class s k of
                            None \<Rightarrow> orphan_classes s
                          | Some c \<Rightarrow> (orphan_classes s)(k \<mapsto> c))\<rparr>"

text \<open>
  The second loop of \<^verbatim>\<open>load\<close>, over \<^verbatim>\<open>self._extension_classes.iteritems()\<close>. The loop
  deletes from the dictionary it iterates over: the iterator compares the size of the
  dictionary with the size at its creation before every step, also the step that would
  end the loop, and raises \<^verbatim>\<open>RuntimeError\<close> (dictionary changed size during iteration).
  So the pass in which a class is deleted is the last one.
\<close>
fun remove_missing ::
  "nat \<Rightarrow> ext_id list \<Rightarrow> (ext_id \<times> ext_class) list \<Rightarrow> manager
     \<Rightarrow> (unit result \<times> manager) option" where
  "remove_missing n found [] s = Some (Return (), s)"
| "remove_missing n found ((k, c) # rest) s =
     (if k \<notin> set found then
        (case (if k \<in> dom (extension_instances s) then disable_extension n k s
               else Some (Return (), s)) of
           None \<Rightarrow> None
         | Some (Raise e, s1) \<Rightarrow> Some (Raise e, s1)
         | Some (Return _, s1) \<Rightarrow> Some (Raise RuntimeError, delete_class k s1))
      else
        (case resolve_requirements s (requirements c) of
           Raise e \<Rightarrow> Some (Raise e, s)
         | Return rs \<Rightarrow>
             remove_missing n found rest
               (set_info k (\<lambda>c'. (info c')\<lparr>info_requirements := Some rs\<rparr>) s)))"

text \<open>\<^verbatim>\<open>load\<close>, for the entry points \<open>eps\<close> that the enumeration yields.\<close>
definition load :: "nat \<Rightarrow> entrypoint list \<Rightarrow> manager \<Rightarrow> (unit result \<times> manager) option" where
  "load n eps s =
     (case load_entrypoints (db s) eps [] s of
        (Raise e, s1) \<Rightarrow> Some (Raise e, s1)
      | (Return found, s1) \<Rightarrow> remove_missing n found (extension_classes s1) s1)"

subsection \<open>Notions used in the statements\<close>

definition class_view :: "(ext_class \<Rightarrow> 'a) \<Rightarrow> manager \<Rightarrow> (ext_id \<times> 'a) list" where
  "class_view g s = map (\<lambda>(k, c). (k, g c)) (extension_classes s)"

definition hooks_registered :: "manager \<Rightarrow> bool" where
  "hooks_registered s \<longleftrightarrow>
     (\<forall>k e. extension_instances s k = Some e \<longrightarrow>
        distinct (hooks e) \<and> (\<forall>h\<in>set (hooks e). h \<in> set (hook_points s (fst h))) \<and>
        (\<forall>k' e'. k' \<noteq> k \<longrightarrow> extension_instances s k' = Some e' \<longrightarrow>
           set (hooks e) \<inter> set (hooks e') = {}))"

definition urlpatterns_registered :: "manager \<Rightarrow> bool" where
  "urlpatterns_registered s \<longleftrightarrow>
     (\<forall>k e ps. extension_instances s k = Some e \<longrightarrow> admin_urlpatterns e = Some ps \<longrightarrow>
        distinct ps \<and> set ps \<subseteq> set (url_patterns s) \<and>
        (\<forall>k' e' ps'. k' \<noteq> k \<longrightarrow> extension_instances s k' = Some e' \<longrightarrow>
           admin_urlpatterns e' = Some ps' \<longrightarrow> set ps \<inter> set ps' = {}))"

definition requirements_resolved :: "(ext_id \<Rightarrow> nat) \<Rightarrow> manager \<Rightarrow> bool" where
  "requirements_resolved rk s \<longleftrightarrow>
     (\<forall>(k, c) \<in> set (extension_classes s).
        info_requirements (info c) = Some (requirements c) \<and>
        (\<forall>r\<in>set (requirements c). r \<noteq> k \<longrightarrow> rk k < rk r))"

definition instances_known :: "manager \<Rightarrow> bool" where
  "instances_known s \<longleftrightarrow> (\<forall>k. extension_instances s k \<noteq> None \<longrightarrow> lookup_class s k \<noteq> None)"

definition ready_to_disable :: "(ext_id \<Rightarrow> nat) \<Rightarrow> manager \<Rightarrow> bool" where
  "ready_to_disable rk s \<longleftrightarrow>
     instances_known s \<and> requirements_resolved rk s \<and> hooks_registered s \<and>
     urlpatterns_registered s"

text \<open>A class with the two flags that disabling writes blanked out.\<close>
definition frozen :: "ext_class \<Rightarrow> ext_class" where
  "frozen c = c\<lparr>info := (info c)\<lparr>info_enabled := False\<rparr>,
               registration := (registration c)\<lparr>enabled := False\<rparr>\<rparr>"

text \<open>The events of \<^verbatim>\<open>disable_extension\<close> for one instance, after its dependents.\<close>
definition teardown_events :: "ext_id \<Rightarrow> ext_class \<Rightarrow> extension \<Rightarrow> manager \<Rightarrow> event list" where
  "teardown_events k c e s =
     (if info_htdocs_path (info c) \<in> fs s then [Rmtree (info_htdocs_path (info c))] else [])
     @ map RemoveHook (hooks e)
     @ (case admin_urlpatterns e of None \<Rightarrow> [] | Some ps \<Rightarrow> map UrlPatternRemove ps)
     @ (if info_app_name (info c) \<in> set (installed_apps s)
        then [InstalledAppsRemove (info_app_name (info c))] else [])
     @ [ResetTemplatetagsCache, ExtensionUninitialized k, InstanceDeleted k,
        RegistrationSave k False (installed (registration c))]"

definition disabled_step :: "(ext_id \<Rightarrow> nat) \<Rightarrow> ext_id set \<Rightarrow> manager \<Rightarrow> manager \<Rightarrow> bool" where
  "disabled_step rk S s s' \<longleftrightarrow>
     ready_to_disable rk s' \<and>
     (\<forall>k\<in>S. extension_instances s' k = None) \<and>
     (\<forall>j. extension_instances s' j = extension_instances s j \<or>
          (extension_instances s' j = None \<and> (\<exists>k\<in>S. rk j \<le> rk k))) \<and>
     class_view frozen s' = class_view frozen s \<and>
     (\<forall>j c'. lookup_class s' j = Some c' \<longrightarrow> extension_instances s j \<noteq> None \<longrightarrow>
          extension_instances s' j = None \<longrightarrow> \<not> enabled (registration c')) \<and>
     (\<forall>j c c'. lookup_class s j = Some c \<longrightarrow> lookup_class s' j = Some c' \<longrightarrow>
          enabled (registration c') \<longrightarrow> enabled (registration c)) \<and>
     (\<exists>evs. events s' = events s @ evs \<and>
        (\<forall>j. ExtensionUninitialized j \<in> set evs \<longleftrightarrow>
             extension_instances s j \<noteq> None \<and> extension_instances s' j = None))"

text \<open>A class with the four flags that enabling and disabling write blanked out.\<close>
definition unflagged :: "ext_class \<Rightarrow> ext_class" where
  "unflagged c = c\<lparr>info := (info c)\<lparr>info_enabled := False, info_installed := False\<rparr>,
                  registration := (registration c)\<lparr>enabled := False, installed := False\<rparr>\<rparr>"

text \<open>The events \<^verbatim>\<open>_install_extension\<close> can log.\<close>
definition install_event :: "event \<Rightarrow> bool" where
  "install_event ev \<longleftrightarrow>
     (case ev of Rmtree _ \<Rightarrow> True | Copytree _ \<Rightarrow> True | RegistrationSave _ _ _ \<Rightarrow> True
      | Syncdb \<Rightarrow> True | Evolve \<Rightarrow> True | InstalledAppsAppend _ \<Rightarrow> True
      | InstalledAppsRemove _ \<Rightarrow> True | _ \<Rightarrow> False)"

text \<open>The ids of the \<^verbatim>\<open>extension_initialized\<close> notifications of a log, in order.\<close>
definition initialized_ids :: "event list \<Rightarrow> ext_id list" where
  "initialized_ids evs =
     concat (map (\<lambda>ev. case ev of ExtensionInitialized j \<Rightarrow> [j] | _ \<Rightarrow> []) evs)"

text \<open>What a call of \<^verbatim>\<open>enable_extension\<close> may change, whatever its outcome: the classes
  only in their flags, the instances only by additions, the log only by appending, with an
  \<^verbatim>\<open>extension_initialized\<close> notification only for an id that got its instance in the
  call; and the registration of an id without instance is as enabled as it was.\<close>
definition enabling_frame :: "manager \<Rightarrow> manager \<Rightarrow> bool" where
  "enabling_frame s s' \<longleftrightarrow>
     class_view unflagged s' = class_view unflagged s \<and>
     (\<forall>j e. extension_instances s j = Some e \<longrightarrow> extension_instances s' j = Some e) \<and>
     (\<exists>evs. events s' = events s @ evs \<and>
        (\<forall>j. j \<in> set (initialized_ids evs) \<longrightarrow>
             extension_instances s j = None \<and> extension_instances s' j \<noteq> None)) \<and>
     (\<forall>j c c'. lookup_class s j = Some c \<longrightarrow> lookup_class s' j = Some c' \<longrightarrow>
        extension_instances s' j = None \<longrightarrow>
        enabled (registration c') = enabled (registration c))"

subsection \<open>Example inputs\<close>

definition empty_manager :: manager where
  "empty_manager =
     \<lparr>extension_classes = [], orphan_classes = Map.empty, extension_instances = Map.empty,
      url_patterns = [], installed_apps = [], hook_points = (\<lambda>_. []), fs = {},
      db = Map.empty, next_oid = 0, events = []\<rparr>"

definition example_registration :: "settings_dict option \<Rightarrow> registered_extension" where
  "example_registration blob = \<lparr>name = ''ext'', enabled = False, installed = False, settings = blob\<rparr>"

text \<open>An extension package without requirements of its own hooks, assets or admin URLs,
  and a class object for it as \<^verbatim>\<open>load\<close> leaves it: requirements resolved, registration
  with the given flags.\<close>
definition plain_def :: "string \<Rightarrow> ext_id list \<Rightarrow> ext_class_def" where
  "plain_def nm reqs =
     \<lparr>requirements = reqs, is_configurable = False, project_name = nm, app_name = nm,
      htdocs_path = ''/static/'' @ nm, has_htdocs = False, admin_urlconf = None,
      ctor_hooks = [], copytree_error = None, syncdb_error = None, evolve_error = None\<rparr>"

definition loaded_class :: "ext_class_def \<Rightarrow> bool \<Rightarrow> ext_class" where
  "loaded_class d on =
     ext_class_def.extend d
       \<lparr>info = (ExtensionInfo d)\<lparr>info_enabled := on, info_installed := on,
                                 info_requirements := Some (requirements d)\<rparr>,
        registration = (RegisteredExtension (project_name d))\<lparr>enabled := on, installed := on\<rparr>\<rparr>"

definition plain_extension :: extension where
  "plain_extension = \<lparr>hooks = [], ext_settings = Map.empty, admin_urlpatterns = None\<rparr>"

text \<open>A manager that knows the extension \<open>A\<close>, not enabled.\<close>
definition a_manager :: manager where
  "a_manager = empty_manager\<lparr>extension_classes := [(''A'', loaded_class (plain_def ''A'' []) False)]\<rparr>"

text \<open>The same with \<open>A\<close> enabled, its assets installed and its app listed.\<close>
definition a_enabled_manager :: manager where
  "a_enabled_manager =
     empty_manager\<lparr>extension_classes := [(''A'', loaded_class (plain_def ''A'' []) True)],
                    extension_instances := [''A'' \<mapsto> plain_extension],
                    installed_apps := [''A''], fs := {''/static/A''}\<rparr>"

text \<open>A manager that knows \<open>A\<close> and \<open>B\<close>, where \<open>B\<close> requires \<open>A\<close>; neither enabled.\<close>
definition ab_manager :: manager where
  "ab_manager =
     empty_manager\<lparr>extension_classes := [(''A'', loaded_class (plain_def ''A'' []) False),
                                          (''B'', loaded_class (plain_def ''B'' [''A'']) False)]\<rparr>"

text \<open>The same with both enabled; \<open>A\<close> owns a hook and an admin URL pattern.\<close>
definition ab_enabled_manager :: manager where
  "ab_enabled_manager =
     empty_manager\<lparr>extension_classes := [(''A'', loaded_class (plain_def ''A'' []) True),
                                          (''B'', loaded_class (plain_def ''B'' [''A'']) True)],
                    extension_instances :=
                      [''A'' \<mapsto> \<lparr>hooks = [(''NavigationHook'', 0)], ext_settings = Map.empty,
                                 admin_urlpatterns = Some [(1, ''A'')]\<rparr>,
                       ''B'' \<mapsto> plain_extension],
                    url_patterns := [(1, ''A'')],
                    installed_apps := [''A'', ''B''],
                    hook_points := (\<lambda>_. [])(''NavigationHook'' := [(''NavigationHook'', 0)]),
                    next_oid := 2\<rparr>"

text \<open>Ranks for these managers: a dependent ranks below what it requires, and a
  requirement ranks below what requires it.\<close>
definition dependents_below :: "ext_id \<Rightarrow> nat" where
  "dependents_below k = (if k = ''A'' then 1 else 0)"

definition requirements_below :: "ext_id \<Rightarrow> nat" where
  "requirements_below k = (if k = ''B'' then 1 else 0)"

text \<open>A manager that knows \<open>A\<close>, not enabled, whose asset copy fails; and one where the
  schema evolution of \<open>A\<close> fails.\<close>
definition a_copy_fails_manager :: manager where
  "a_copy_fails_manager =
     empty_manager\<lparr>extension_classes :=
       [(''A'', loaded_class ((plain_def ''A'' [])\<lparr>has_htdocs := True,
                                                   copytree_error := Some ''copy failed''\<rparr>) False)]\<rparr>"

definition a_evolve_fails_manager :: manager where
  "a_evolve_fails_manager =
     empty_manager\<lparr>extension_classes :=
       [(''A'', loaded_class ((plain_def ''A'' [])\<lparr>evolve_error := Some ''evolve failed''\<rparr>) False)]\<rparr>"

section \<open>Auxiliary facts\<close>

subsection \<open>The examples, evaluated\<close>

lemmas example_defs = empty_manager_def a_manager_def a_enabled_manager_def ab_manager_def
  ab_enabled_manager_def loaded_class_def plain_def_def plain_extension_def ExtensionInfo_def
  RegisteredExtension_def ext_class_def.extend_def dependents_below_def requirements_below_def
  a_copy_fails_manager_def a_evolve_fails_manager_def

lemmas operation_defs = lookup_class_def install_extension_def init_extension_def
  Extension_init_def registration_save_def set_registration_def update_class_def set_info_def
  log_def add_to_installed_apps_def remove_from_installed_apps_def
  reset_templatetags_cache_def Settings_init_def Settings_load_def current_class_def
  except_InstallExtensionError_def uninstall_extension_def uninit_extension_def rmtree_def
  get_dependent_extensions_def get_installed_extension_def

lemma a_manager_enabled:
  "\<exists>s1. enable_extension (Suc 0) ''A'' a_manager = Some (Return (Some plain_extension), s1)"
  by (simp add: example_defs operation_defs)

lemma a_copy_fails_enable:
  "\<exists>s2. enable_extension (Suc 0) ''A'' a_copy_fails_manager =
          Some (Raise (OSError ''copy failed''), s2)"
  by (simp add: example_defs operation_defs)

lemma a_evolve_fails_enable:
  "\<exists>s2. enable_extension (Suc 0) ''A'' a_evolve_fails_manager =
          Some (Raise (EnablingExtensionError ''evolve failed''), s2) \<and>
        map_option (installed \<circ> registration) (map_of (extension_classes s2) ''A'') = Some True"
  by (simp add: example_defs operation_defs)

subsection \<open>What the helpers change\<close>

lemma log_fields [simp]:
  "extension_classes (log ev s) = extension_classes s"
  "orphan_classes (log ev s) = orphan_classes s"
  "extension_instances (log ev s) = extension_instances s"
  "url_patterns (log ev s) = url_patterns s"
  "installed_apps (log ev s) = installed_apps s"
  "hook_points (log ev s) = hook_points s"
  "fs (log ev s) = fs s"
  "db (log ev s) = db s"
  "next_oid (log ev s) = next_oid s"
  "events (log ev s) = events s @ [ev]"
  by (simp_all add: log_def)

lemma lookup_class_log [simp]: "lookup_class (log ev s) = lookup_class s"
  by (rule ext) (simp add: lookup_class_def)

lemma update_class_fields [simp]:
  "orphan_classes (update_class k f s) = orphan_classes s"
  "extension_instances (update_class k f s) = extension_instances s"
  "url_patterns (update_class k f s) = url_patterns s"
  "installed_apps (update_class k f s) = installed_apps s"
  "hook_points (update_class k f s) = hook_points s"
  "fs (update_class k f s) = fs s"
  "db (update_class k f s) = db s"
  "next_oid (update_class k f s) = next_oid s"
  "events (update_class k f s) = events s"
  by (simp_all add: update_class_def)

lemma map_of_update_entries:
  "map_of (map (\<lambda>(k', c). if k' = k then (k', f c) else (k', c)) xs) j =
     (if j = k then map_option f (map_of xs k) else map_of xs j)"
  by (induction xs) auto

lemma lookup_class_update_class [simp]:
  "lookup_class (update_class k f s) j =
     (if j = k then map_option f (lookup_class s k) else lookup_class s j)"
  by (simp add: lookup_class_def update_class_def map_of_update_entries)

lemma keys_update_class [simp]:
  "map fst (extension_classes (update_class k f s)) = map fst (extension_classes s)"
  by (simp add: update_class_def) (induction "extension_classes s", auto)

lemma registration_save_fields [simp]:
  "extension_classes (registration_save k s) = extension_classes s"
  "orphan_classes (registration_save k s) = orphan_classes s"
  "extension_instances (registration_save k s) = extension_instances s"
  "url_patterns (registration_save k s) = url_patterns s"
  "installed_apps (registration_save k s) = installed_apps s"
  "hook_points (registration_save k s) = hook_points s"
  "fs (registration_save k s) = fs s"
  "next_oid (registration_save k s) = next_oid s"
  by (simp_all add: registration_save_def split: option.splits)

lemma lookup_class_registration_save [simp]:
  "lookup_class (registration_save k s) = lookup_class s"
  by (rule ext) (simp add: lookup_class_def)

lemma events_registration_save:
  "events (registration_save k s) =
     events s @ (case lookup_class s k of
                   None \<Rightarrow> []
                 | Some c \<Rightarrow> [RegistrationSave k (enabled (registration c)) (installed (registration c))])"
  by (simp add: registration_save_def split: option.splits)

lemma class_view_log [simp]: "class_view g (log ev s) = class_view g s"
  by (simp add: class_view_def)

lemma class_view_registration_save [simp]: "class_view g (registration_save k s) = class_view g s"
  by (simp add: class_view_def)

lemma class_view_update_class:
  "(\<And>c. g (f c) = g c) \<Longrightarrow> class_view g (update_class k f s) = class_view g s"
  by (auto simp: class_view_def update_class_def)

lemma map_of_map_snd: "map_of (map (\<lambda>(k, c). (k, g c)) xs) k = map_option g (map_of xs k)"
  by (induction xs) auto

lemma map_of_class_view: "map_of (class_view g s) k = map_option g (lookup_class s k)"
  by (simp add: class_view_def lookup_class_def map_of_map_snd)

subsection \<open>Hooks\<close>

lemma remove_hook_fields:
  assumes "remove_hook h s = (r, s')"
  shows "extension_classes s' = extension_classes s" "extension_instances s' = extension_instances s"
    "url_patterns s' = url_patterns s" "installed_apps s' = installed_apps s" "fs s' = fs s"
    "db s' = db s" "next_oid s' = next_oid s" "orphan_classes s' = orphan_classes s"
  using assms by (auto simp: remove_hook_def list_remove_def split: if_splits)

lemma shutdown_fields:
  assumes "shutdown hs s = (r, s')"
  shows "extension_classes s' = extension_classes s \<and> extension_instances s' = extension_instances s \<and>
    url_patterns s' = url_patterns s \<and> installed_apps s' = installed_apps s \<and> fs s' = fs s \<and>
    db s' = db s \<and> next_oid s' = next_oid s \<and> orphan_classes s' = orphan_classes s"
  using assms
proof (induction hs arbitrary: s)
  case Nil then show ?case by simp
next
  case (Cons h hs)
  obtain r1 s1 where rh: "remove_hook h s = (r1, s1)" by (cases "remove_hook h s")
  show ?case
  proof (cases r1)
    case (Return u)
    with Cons.prems rh have "shutdown hs s1 = (r, s')" by simp
    from Cons.IH[OF this] remove_hook_fields[OF rh] show ?thesis by simp
  next
    case (Raise e)
    with Cons.prems rh have "s' = s1" by simp
    with remove_hook_fields[OF rh] show ?thesis by simp
  qed
qed

lemma shutdown_hook_points_subset:
  "shutdown hs s = (r, s') \<Longrightarrow> set (hook_points s' kd) \<subseteq> set (hook_points s kd)"
proof (induction hs arbitrary: s)
  case Nil then show ?case by simp
next
  case (Cons h hs)
  obtain r1 s1 where rh: "remove_hook h s = (r1, s1)" by (cases "remove_hook h s")
  have sub: "set (hook_points s1 kd) \<subseteq> set (hook_points s kd)"
  proof -
    have "set (remove1 h (hook_points s (fst h))) \<subseteq> set (hook_points s (fst h))"
      by (rule set_remove1_subset)
    with rh show ?thesis
      by (auto simp: remove_hook_def list_remove_def split: if_splits)
  qed
  show ?case
  proof (cases r1)
    case (Return u)
    with Cons.prems rh have "shutdown hs s1 = (r, s')" by simp
    from Cons.IH[OF this] sub show ?thesis by blast
  next
    case (Raise e)
    with Cons.prems rh have "s' = s1" by simp
    with sub show ?thesis by simp
  qed
qed

lemma shutdown_distinct:
  "shutdown hs s = (r, s') \<Longrightarrow> distinct (hook_points s kd) \<Longrightarrow> distinct (hook_points s' kd)"
proof (induction hs arbitrary: s)
  case Nil then show ?case by simp
next
  case (Cons h hs)
  obtain r1 s1 where rh: "remove_hook h s = (r1, s1)" by (cases "remove_hook h s")
  have d: "distinct (hook_points s1 kd)"
    using rh Cons.prems(2) by (auto simp: remove_hook_def list_remove_def split: if_splits)
  show ?case
  proof (cases r1)
    case (Return u)
    with Cons.prems rh have "shutdown hs s1 = (r, s')" by simp
    from Cons.IH[OF this d] show ?thesis .
  next
    case (Raise e)
    with Cons.prems rh have "s' = s1" by simp
    with d show ?thesis by simp
  qed
qed

lemma shutdown_ok:
  assumes "distinct hs" "\<forall>h\<in>set hs. h \<in> set (hook_points s (fst h))"
  shows "\<exists>s'. shutdown hs s = (Return (), s') \<and> events s' = events s @ map RemoveHook hs \<and>
           (\<forall>h kd. h \<notin> set hs \<longrightarrow> (h \<in> set (hook_points s' kd) \<longleftrightarrow> h \<in> set (hook_points s kd)))"
  using assms
proof (induction hs arbitrary: s)
  case Nil then show ?case by simp
next
  case (Cons h hs)
  let ?s1 = "log (RemoveHook h) (s\<lparr>hook_points := (hook_points s)(fst h := remove1 h (hook_points s (fst h)))\<rparr>)"
  from Cons.prems have rh: "remove_hook h s = (Return (), ?s1)"
    by (simp add: remove_hook_def list_remove_def)
  have keep: "\<And>h' kd. h' \<noteq> h \<Longrightarrow> (h' \<in> set (hook_points ?s1 kd) \<longleftrightarrow> h' \<in> set (hook_points s kd))"
    by simp
  have "\<forall>h'\<in>set hs. h' \<in> set (hook_points ?s1 (fst h'))"
  proof
    fix h' assume a: "h' \<in> set hs"
    with Cons.prems have "h' \<noteq> h" "h' \<in> set (hook_points s (fst h'))" by auto
    with keep show "h' \<in> set (hook_points ?s1 (fst h'))" by blast
  qed
  moreover from Cons.prems have "distinct hs" by simp
  ultimately have "distinct hs" "\<forall>h'\<in>set hs. h' \<in> set (hook_points ?s1 (fst h'))"
    by auto
  from Cons.IH[OF this] obtain s' where s': "shutdown hs ?s1 = (Return (), s')"
    "events s' = events ?s1 @ map RemoveHook hs"
    "\<forall>h' kd. h' \<notin> set hs \<longrightarrow> (h' \<in> set (hook_points s' kd) \<longleftrightarrow> h' \<in> set (hook_points ?s1 kd))"
    by blast
  have "shutdown (h # hs) s = (Return (), s')" using rh s'(1) by simp
  moreover have "events s' = events s @ map RemoveHook (h # hs)" using s'(2) by simp
  moreover have "\<forall>h' kd. h' \<notin> set (h # hs) \<longrightarrow>
      (h' \<in> set (hook_points s' kd) \<longleftrightarrow> h' \<in> set (hook_points s kd))"
    using s'(3) keep by simp
  ultimately show ?case by blast
qed

subsection \<open>URL patterns\<close>

lemma remove_urlpatterns_ok:
  assumes "distinct ps" "set ps \<subseteq> set (url_patterns s)"
  shows "\<exists>s'. remove_urlpatterns ps s = (Return (), s') \<and>
           events s' = events s @ map UrlPatternRemove ps \<and>
           (\<forall>p. p \<notin> set ps \<longrightarrow> (p \<in> set (url_patterns s') \<longleftrightarrow> p \<in> set (url_patterns s))) \<and>
           extension_classes s' = extension_classes s \<and>
           extension_instances s' = extension_instances s \<and>
           hook_points s' = hook_points s \<and> installed_apps s' = installed_apps s \<and>
           fs s' = fs s \<and> db s' = db s \<and> next_oid s' = next_oid s \<and>
           orphan_classes s' = orphan_classes s"
  using assms
proof (induction ps arbitrary: s)
  case Nil then show ?case by simp
next
  case (Cons p ps)
  let ?s1 = "log (UrlPatternRemove p) (s\<lparr>url_patterns := remove1 p (url_patterns s)\<rparr>)"
  have keep: "\<And>q. q \<noteq> p \<Longrightarrow> (q \<in> set (url_patterns ?s1) \<longleftrightarrow> q \<in> set (url_patterns s))"
    by simp
  have "set ps \<subseteq> set (url_patterns ?s1)"
  proof
    fix q assume "q \<in> set ps"
    with Cons.prems have "q \<noteq> p" "q \<in> set (url_patterns s)" by auto
    with keep show "q \<in> set (url_patterns ?s1)" by blast
  qed
  moreover from Cons.prems have "distinct ps" by simp
  ultimately obtain s' where s': "remove_urlpatterns ps ?s1 = (Return (), s')"
    "events s' = events ?s1 @ map UrlPatternRemove ps"
    "\<forall>q. q \<notin> set ps \<longrightarrow> (q \<in> set (url_patterns s') \<longleftrightarrow> q \<in> set (url_patterns ?s1))"
    "extension_classes s' = extension_classes ?s1"
    "extension_instances s' = extension_instances ?s1"
    "hook_points s' = hook_points ?s1" "installed_apps s' = installed_apps ?s1"
    "fs s' = fs ?s1" "db s' = db ?s1" "next_oid s' = next_oid ?s1"
    "orphan_classes s' = orphan_classes ?s1"
    using Cons.IH[of ?s1] by blast
  from Cons.prems have "remove_urlpatterns (p # ps) s = (Return (), s')"
    using s'(1) by (simp add: list_remove_def)
  moreover have "events s' = events s @ map UrlPatternRemove (p # ps)" using s'(2) by simp
  moreover have "\<forall>q. q \<notin> set (p # ps) \<longrightarrow>
      (q \<in> set (url_patterns s') \<longleftrightarrow> q \<in> set (url_patterns s))"
    using s'(3) keep by simp
  ultimately show ?case using s'(4-11) by simp
qed

lemma frozen_idem [simp]:
  "frozen (c\<lparr>info := (info c)\<lparr>info_enabled := b\<rparr>\<rparr>) = frozen c"
  "frozen (c\<lparr>registration := (registration c)\<lparr>enabled := b\<rparr>\<rparr>) = frozen c"
  by (simp_all add: frozen_def)

lemma frozen_fields [simp]:
  "requirements (frozen c) = requirements c"
  "info_requirements (info (frozen c)) = info_requirements (info c)"
  "installed (registration (frozen c)) = installed (registration c)"
  by (simp_all add: frozen_def)

lemma class_view_set_info_enabled [simp]:
  "class_view frozen (set_info k (\<lambda>c'. (info c')\<lparr>info_enabled := b\<rparr>) s) = class_view frozen s"
  unfolding set_info_def by (rule class_view_update_class) simp

lemma class_view_set_registration_enabled [simp]:
  "class_view frozen (set_registration k (\<lambda>r. r\<lparr>enabled := b\<rparr>) s) = class_view frozen s"
  unfolding set_registration_def by (rule class_view_update_class) simp

lemma class_view_other_fields:
  "extension_classes s' = extension_classes s \<Longrightarrow> class_view g s' = class_view g s"
  by (simp add: class_view_def)

lemma set_class_view:
  "(\<forall>(k, c) \<in> set (class_view g s). P k c) \<longleftrightarrow> (\<forall>(k, c) \<in> set (extension_classes s). P k (g c))"
  by (auto simp: class_view_def)

lemma requirements_resolved_view:
  "requirements_resolved rk s \<longleftrightarrow>
     (\<forall>(k, c) \<in> set (class_view frozen s).
        info_requirements (info c) = Some (requirements c) \<and>
        (\<forall>r\<in>set (requirements c). r \<noteq> k \<longrightarrow> rk k < rk r))"
  unfolding set_class_view requirements_resolved_def by simp

lemma requirements_resolved_cong:
  "class_view frozen s' = class_view frozen s \<Longrightarrow>
   requirements_resolved rk s' = requirements_resolved rk s"
  by (simp add: requirements_resolved_view)

lemma lookup_class_view_cong:
  assumes "class_view frozen s' = class_view frozen s"
  shows "map_option frozen (lookup_class s' k) = map_option frozen (lookup_class s k)"
  using assms map_of_class_view[of frozen s' k] map_of_class_view[of frozen s k] by simp

lemma lookup_class_None_cong:
  assumes "class_view frozen s' = class_view frozen s"
  shows "lookup_class s' k = None \<longleftrightarrow> lookup_class s k = None"
  using lookup_class_view_cong[OF assms, of k] by (metis option.map_disc_iff)

lemma set_fields [simp]:
  "extension_instances (set_info k f s) = extension_instances s"
  "extension_instances (set_registration k g s) = extension_instances s"
  "hook_points (set_info k f s) = hook_points s"
  "hook_points (set_registration k g s) = hook_points s"
  "url_patterns (set_info k f s) = url_patterns s"
  "url_patterns (set_registration k g s) = url_patterns s"
  "events (set_info k f s) = events s"
  "events (set_registration k g s) = events s"
  "installed_apps (set_info k f s) = installed_apps s"
  "installed_apps (set_registration k g s) = installed_apps s"
  "fs (set_info k f s) = fs s"
  "fs (set_registration k g s) = fs s"
  "next_oid (set_info k f s) = next_oid s"
  "next_oid (set_registration k g s) = next_oid s"
  by (simp_all add: set_info_def set_registration_def)

lemma lookup_set [simp]:
  "lookup_class (set_info k f s) j =
     (if j = k then map_option (\<lambda>c. c\<lparr>info := f c\<rparr>) (lookup_class s k) else lookup_class s j)"
  "lookup_class (set_registration k g s) j =
     (if j = k then map_option (\<lambda>c. c\<lparr>registration := g (registration c)\<rparr>) (lookup_class s k)
      else lookup_class s j)"
  by (simp_all add: set_info_def set_registration_def)

lemma teardown:
  assumes hr: "hooks_registered s" and ur: "urlpatterns_registered s"
    and e: "extension_instances s k = Some e" and c1: "lookup_class s k = Some c1"
    and inst: "installed (registration c1) = installed (registration c)"
  obtains s2 s' where
    "uninit_extension k c e (uninstall_extension c s) = (Return (), s2)"
    "s' = registration_save k (set_registration k (\<lambda>r. r\<lparr>enabled := False\<rparr>) s2)"
    "extension_instances s' = (extension_instances s)(k := None)"
    "class_view frozen s' = class_view frozen s"
    "\<exists>c'. lookup_class s' k = Some c' \<and> \<not> enabled (registration c')"
    "\<forall>j. j \<noteq> k \<longrightarrow> lookup_class s' j = lookup_class s j"
    "events s' = events s @ teardown_events k c e s"
    "\<forall>h kd. h \<notin> set (hooks e) \<longrightarrow>
          (h \<in> set (hook_points s' kd) \<longleftrightarrow> h \<in> set (hook_points s kd))"
    "\<forall>p. p \<notin> (case admin_urlpatterns e of None \<Rightarrow> {} | Some ps \<Rightarrow> set ps) \<longrightarrow>
          (p \<in> set (url_patterns s') \<longleftrightarrow> p \<in> set (url_patterns s))"
proof -
  let ?s0 = "uninstall_extension c s"
  have s0: "extension_instances ?s0 = extension_instances s" "hook_points ?s0 = hook_points s"
    "url_patterns ?s0 = url_patterns s" "extension_classes ?s0 = extension_classes s"
    "installed_apps ?s0 = installed_apps s"
    "events ?s0 = events s @ (if info_htdocs_path (info c) \<in> fs s
                              then [Rmtree (info_htdocs_path (info c))] else [])"
    by (simp_all add: uninstall_extension_def rmtree_def Let_def)
  from hr e have he: "distinct (hooks e)" "\<forall>h\<in>set (hooks e). h \<in> set (hook_points ?s0 (fst h))"
    unfolding hooks_registered_def s0 by blast+
  from shutdown_ok[OF he] obtain s1 where s1: "shutdown (hooks e) ?s0 = (Return (), s1)"
    "events s1 = events ?s0 @ map RemoveHook (hooks e)"
    "\<forall>h kd. h \<notin> set (hooks e) \<longrightarrow> (h \<in> set (hook_points s1 kd) \<longleftrightarrow> h \<in> set (hook_points ?s0 kd))"
    by blast
  note f1 = shutdown_fields[OF s1(1)]
  have "\<exists>s2. (case admin_urlpatterns e of None \<Rightarrow> (Return (), s1)
                | Some ps \<Rightarrow> remove_urlpatterns ps s1) = (Return (), s2) \<and>
          events s2 = events s1 @ (case admin_urlpatterns e of None \<Rightarrow> []
                                   | Some ps \<Rightarrow> map UrlPatternRemove ps) \<and>
          (\<forall>p. p \<notin> (case admin_urlpatterns e of None \<Rightarrow> {} | Some ps \<Rightarrow> set ps) \<longrightarrow>
             (p \<in> set (url_patterns s2) \<longleftrightarrow> p \<in> set (url_patterns s1))) \<and>
          extension_classes s2 = extension_classes s1 \<and>
          extension_instances s2 = extension_instances s1 \<and>
          hook_points s2 = hook_points s1 \<and> installed_apps s2 = installed_apps s1"
  proof (cases "admin_urlpatterns e")
    case None then show ?thesis by simp
  next
    case (Some ps)
    with ur e have "distinct ps" "set ps \<subseteq> set (url_patterns s1)"
      unfolding urlpatterns_registered_def using f1 s0 by auto
    from remove_urlpatterns_ok[OF this] Some show ?thesis by auto
  qed
  then obtain s2 where s2:
    "(case admin_urlpatterns e of None \<Rightarrow> (Return (), s1)
      | Some ps \<Rightarrow> remove_urlpatterns ps s1) = (Return (), s2)"
    "events s2 = events s1 @ (case admin_urlpatterns e of None \<Rightarrow> []
                             | Some ps \<Rightarrow> map UrlPatternRemove ps)"
    "\<forall>p. p \<notin> (case admin_urlpatterns e of None \<Rightarrow> {} | Some ps \<Rightarrow> set ps) \<longrightarrow>
       (p \<in> set (url_patterns s2) \<longleftrightarrow> p \<in> set (url_patterns s1))"
    "extension_classes s2 = extension_classes s1"
    "extension_instances s2 = extension_instances s1"
    "hook_points s2 = hook_points s1" "installed_apps s2 = installed_apps s1"
    by blast
  have lk2: "lookup_class s2 = lookup_class s"
    using s2(4) f1 s0(4) by (simp add: lookup_class_def fun_eq_iff)
  have cv2: "class_view frozen s2 = class_view frozen s"
    using s2(4) f1 s0(4) by (simp add: class_view_def)
  let ?s6 = "log (ExtensionUninitialized k)
               (set_info k (\<lambda>c'. (info c')\<lparr>info_enabled := False\<rparr>)
                  (reset_templatetags_cache
                     (remove_from_installed_apps (info_app_name (info c)) s2)))"
  let ?s3 = "log (InstanceDeleted k) (?s6\<lparr>extension_instances := (extension_instances ?s6)(k := None)\<rparr>)"
  have i6: "extension_instances ?s6 = extension_instances s"
    using s2(5) f1 s0(1)
    by (simp add: reset_templatetags_cache_def remove_from_installed_apps_def)
  have un: "uninit_extension k c e ?s0 = (Return (), ?s3)"
    using s1(1) s2(1) i6 e by (simp add: uninit_extension_def Let_def domIff)
  let ?s' = "registration_save k (set_registration k (\<lambda>r. r\<lparr>enabled := False\<rparr>) ?s3)"
  have ec3: "extension_classes ?s3 =
      extension_classes (set_info k (\<lambda>c'. (info c')\<lparr>info_enabled := False\<rparr>) s2)"
    by (simp add: reset_templatetags_cache_def remove_from_installed_apps_def set_info_def
        update_class_def)
  have cv3: "class_view frozen ?s3 = class_view frozen s"
    using class_view_other_fields[OF ec3, of frozen] cv2 by simp
  have lk3: "lookup_class ?s3 = lookup_class (set_info k (\<lambda>c'. (info c')\<lparr>info_enabled := False\<rparr>) s2)"
    using ec3 by (simp add: lookup_class_def fun_eq_iff)
  have g1: "extension_instances ?s' = (extension_instances s)(k := None)"
    using i6 by simp
  have g2: "class_view frozen ?s' = class_view frozen s"
    using cv3 by simp
  have g3: "\<exists>c'. lookup_class ?s' k = Some c' \<and> \<not> enabled (registration c')"
    using lk3 lk2 c1 by simp
  have g4: "\<forall>j. j \<noteq> k \<longrightarrow> lookup_class ?s' j = lookup_class s j"
    using lk3 lk2 by simp
  have g5: "events ?s' = events s @ teardown_events k c e s"
    using s0(6) s1(2) s2(2) s2(7) f1 s0(5) lk3 lk2 c1 inst
    by (simp add: events_registration_save teardown_events_def reset_templatetags_cache_def
        remove_from_installed_apps_def)
  have g6: "\<forall>h kd. h \<notin> set (hooks e) \<longrightarrow>
          (h \<in> set (hook_points ?s' kd) \<longleftrightarrow> h \<in> set (hook_points s kd))"
    using s1(3) s2(6) s0(2)
    by (simp add: reset_templatetags_cache_def remove_from_installed_apps_def)
  have g7: "\<forall>p. p \<notin> (case admin_urlpatterns e of None \<Rightarrow> {} | Some ps \<Rightarrow> set ps) \<longrightarrow>
          (p \<in> set (url_patterns ?s') \<longleftrightarrow> p \<in> set (url_patterns s))"
    using s2(3) f1 s0(3)
    by (simp add: reset_templatetags_cache_def remove_from_installed_apps_def)
  show thesis by (rule that[OF un refl g1 g2 g3 g4 g5 g6 g7])
qed

lemma step_noop:
  "ready_to_disable rk s \<Longrightarrow> \<forall>k\<in>S. extension_instances s k = None \<Longrightarrow> disabled_step rk S s s"
  unfolding disabled_step_def by auto

lemma step_weaken:
  assumes "disabled_step rk S s s'" "\<forall>k'\<in>S. \<exists>k\<in>T. rk k' \<le> rk k" "\<forall>k\<in>T. extension_instances s' k = None"
  shows "disabled_step rk T s s'"
proof -
  have "\<forall>j. extension_instances s' j = extension_instances s j \<or>
          (extension_instances s' j = None \<and> (\<exists>k\<in>T. rk j \<le> rk k))"
  proof
    fix j
    from assms(1) have "extension_instances s' j = extension_instances s j \<or>
          (extension_instances s' j = None \<and> (\<exists>k\<in>S. rk j \<le> rk k))"
      unfolding disabled_step_def by blast
    then show "extension_instances s' j = extension_instances s j \<or>
          (extension_instances s' j = None \<and> (\<exists>k\<in>T. rk j \<le> rk k))"
      using assms(2) by (meson le_trans)
  qed
  with assms(1,3) show ?thesis unfolding disabled_step_def by blast
qed

lemma step_trans:
  assumes a: "disabled_step rk S1 s s1" and b: "disabled_step rk S2 s1 s2"
  shows "disabled_step rk (S1 \<union> S2) s s2"
proof -
  note A = a[unfolded disabled_step_def] and B = b[unfolded disabled_step_def]
  from A have A3: "\<And>j. extension_instances s1 j = extension_instances s j \<or>
          (extension_instances s1 j = None \<and> (\<exists>k\<in>S1. rk j \<le> rk k))" by blast
  from B have B3: "\<And>j. extension_instances s2 j = extension_instances s1 j \<or>
          (extension_instances s2 j = None \<and> (\<exists>k\<in>S2. rk j \<le> rk k))" by blast
  from A have A4: "class_view frozen s1 = class_view frozen s" by blast
  from B have B4: "class_view frozen s2 = class_view frozen s1" by blast
  from A have A5: "\<And>j c'. lookup_class s1 j = Some c' \<Longrightarrow> extension_instances s j \<noteq> None \<Longrightarrow>
          extension_instances s1 j = None \<Longrightarrow> \<not> enabled (registration c')" by blast
  from B have B5: "\<And>j c'. lookup_class s2 j = Some c' \<Longrightarrow> extension_instances s1 j \<noteq> None \<Longrightarrow>
          extension_instances s2 j = None \<Longrightarrow> \<not> enabled (registration c')" by blast
  from A have A6: "\<And>j c c'. lookup_class s j = Some c \<Longrightarrow> lookup_class s1 j = Some c' \<Longrightarrow>
          enabled (registration c') \<Longrightarrow> enabled (registration c)" by blast
  from B have B6: "\<And>j c c'. lookup_class s1 j = Some c \<Longrightarrow> lookup_class s2 j = Some c' \<Longrightarrow>
          enabled (registration c') \<Longrightarrow> enabled (registration c)" by blast
  from A obtain evs1 where e1: "events s1 = events s @ evs1"
     "\<And>j. ExtensionUninitialized j \<in> set evs1 \<longleftrightarrow>
             extension_instances s j \<noteq> None \<and> extension_instances s1 j = None" by blast
  from B obtain evs2 where e2: "events s2 = events s1 @ evs2"
     "\<And>j. ExtensionUninitialized j \<in> set evs2 \<longleftrightarrow>
             extension_instances s1 j \<noteq> None \<and> extension_instances s2 j = None" by blast
  have mid: "\<And>j c'. lookup_class s2 j = Some c' \<Longrightarrow> \<exists>c1. lookup_class s1 j = Some c1"
    using lookup_class_None_cong[OF B4] by (metis option.exhaust option.distinct(1))
  have P1: "ready_to_disable rk s2" using B by blast
  have P2: "\<forall>k\<in>S1 \<union> S2. extension_instances s2 k = None"
  proof
    fix k assume "k \<in> S1 \<union> S2"
    then show "extension_instances s2 k = None"
    proof
      assume "k \<in> S1"
      with A have "extension_instances s1 k = None" by blast
      with B3[of k] show ?thesis by auto
    next
      assume "k \<in> S2" with B show ?thesis by blast
    qed
  qed
  have P3: "\<forall>j. extension_instances s2 j = extension_instances s j \<or>
          (extension_instances s2 j = None \<and> (\<exists>k\<in>S1 \<union> S2. rk j \<le> rk k))"
    using A3 B3 by (metis Un_iff)
  have P4: "class_view frozen s2 = class_view frozen s" using A4 B4 by simp
  have P5: "\<forall>j c'. lookup_class s2 j = Some c' \<longrightarrow> extension_instances s j \<noteq> None \<longrightarrow>
          extension_instances s2 j = None \<longrightarrow> \<not> enabled (registration c')"
  proof (intro allI impI)
    fix j c' assume l2: "lookup_class s2 j = Some c'" and i0: "extension_instances s j \<noteq> None"
      and i2: "extension_instances s2 j = None"
    from mid[OF l2] obtain c1 where l1: "lookup_class s1 j = Some c1" by blast
    show "\<not> enabled (registration c')"
    proof (cases "extension_instances s1 j = None")
      case True
      from A5[OF l1 i0 True] B6[OF l1 l2] show ?thesis by blast
    next
      case False
      from B5[OF l2 False i2] show ?thesis .
    qed
  qed
  have P6: "\<forall>j c c'. lookup_class s j = Some c \<longrightarrow> lookup_class s2 j = Some c' \<longrightarrow>
          enabled (registration c') \<longrightarrow> enabled (registration c)"
  proof (intro allI impI)
    fix j c c' assume l0: "lookup_class s j = Some c" and l2: "lookup_class s2 j = Some c'"
      and en: "enabled (registration c')"
    from mid[OF l2] obtain c1 where l1: "lookup_class s1 j = Some c1" by blast
    from B6[OF l1 l2 en] A6[OF l0 l1] show "enabled (registration c)" by blast
  qed
  have P7: "\<exists>evs. events s2 = events s @ evs \<and>
        (\<forall>j. ExtensionUninitialized j \<in> set evs \<longleftrightarrow>
             extension_instances s j \<noteq> None \<and> extension_instances s2 j = None)"
  proof (intro exI conjI allI)
    show "events s2 = events s @ (evs1 @ evs2)" using e1(1) e2(1) by simp
    fix j
    show "ExtensionUninitialized j \<in> set (evs1 @ evs2) \<longleftrightarrow>
             extension_instances s j \<noteq> None \<and> extension_instances s2 j = None"
      using e1(2)[of j] e2(2)[of j] A3[of j] B3[of j] by (metis Un_iff set_append)
  qed
  from P1 P2 P3 P4 P5 P6 P7 show ?thesis unfolding disabled_step_def by blast
qed

lemma dependents_scan_ok:
  assumes "\<forall>(k, c)\<in>set xs. info_requirements (info c) \<noteq> None"
  shows "\<exists>ds. dependents_scan d xs = Return ds \<and>
           set ds = {k. k \<noteq> d \<and> (\<exists>c rs. (k, c) \<in> set xs \<and>
                                  info_requirements (info c) = Some rs \<and> d \<in> set rs)}"
  using assms
proof (induction xs)
  case Nil then show ?case by simp
next
  case (Cons x xs)
  obtain k c where x: "x = (k, c)" by (cases x)
  from Cons.prems have "\<forall>(k, c)\<in>set xs. info_requirements (info c) \<noteq> None" by simp
  from Cons.IH[OF this] obtain ds where ds: "dependents_scan d xs = Return ds"
    "set ds = {k. k \<noteq> d \<and> (\<exists>c rs. (k, c) \<in> set xs \<and>
                              info_requirements (info c) = Some rs \<and> d \<in> set rs)}" by blast
  from Cons.prems x obtain rs where rs: "info_requirements (info c) = Some rs" by auto
  show ?case
  proof (cases "k = d")
    case True
    with x ds show ?thesis by auto
  next
    case False
    have "dependents_scan d (x # xs) = Return (map (\<lambda>_. k) (filter (\<lambda>r. r = d) rs) @ ds)"
      using x False rs ds(1) by simp
    moreover have "set (map (\<lambda>_. k) (filter (\<lambda>r. r = d) rs) @ ds) =
        {k'. k' \<noteq> d \<and> (\<exists>c' rs'. (k', c') \<in> set (x # xs) \<and>
                              info_requirements (info c') = Some rs' \<and> d \<in> set rs')}"
      using x False rs ds(2) by (auto simp: image_iff)
    ultimately show ?thesis by blast
  qed
qed

lemma step_teardown:
  assumes rd: "ready_to_disable rk s"
    and e: "extension_instances s k = Some e" and c1: "lookup_class s k = Some c1"
    and inst: "installed (registration c1) = installed (registration c)"
  obtains s2 s' where
    "uninit_extension k c e (uninstall_extension c s) = (Return (), s2)"
    "s' = registration_save k (set_registration k (\<lambda>r. r\<lparr>enabled := False\<rparr>) s2)"
    "disabled_step rk {k} s s'"
    "extension_instances s' = (extension_instances s)(k := None)"
    "events s' = events s @ teardown_events k c e s"
proof -
  from rd have hr: "hooks_registered s" and ur: "urlpatterns_registered s"
    and ik: "instances_known s" and rr: "requirements_resolved rk s"
    unfolding ready_to_disable_def by blast+
  from hr ur e c1 inst obtain s2 s' where
    un: "uninit_extension k c e (uninstall_extension c s) = (Return (), s2)" and
    s'_def: "s' = registration_save k (set_registration k (\<lambda>r. r\<lparr>enabled := False\<rparr>) s2)" and
    i': "extension_instances s' = (extension_instances s)(k := None)" and
    cv: "class_view frozen s' = class_view frozen s" and
    lk: "\<exists>c'. lookup_class s' k = Some c' \<and> \<not> enabled (registration c')" and
    lo': "\<forall>j. j \<noteq> k \<longrightarrow> lookup_class s' j = lookup_class s j" and
    ev: "events s' = events s @ teardown_events k c e s" and
    hk': "\<forall>h kd. h \<notin> set (hooks e) \<longrightarrow>
          (h \<in> set (hook_points s' kd) \<longleftrightarrow> h \<in> set (hook_points s kd))" and
    up': "\<forall>p. p \<notin> (case admin_urlpatterns e of None \<Rightarrow> {} | Some ps \<Rightarrow> set ps) \<longrightarrow>
          (p \<in> set (url_patterns s') \<longleftrightarrow> p \<in> set (url_patterns s))"
    by (rule teardown)
  from lo' have lo: "\<And>j. j \<noteq> k \<Longrightarrow> lookup_class s' j = lookup_class s j" by simp
  from hk' have hk: "\<And>h kd. h \<notin> set (hooks e) \<Longrightarrow>
          (h \<in> set (hook_points s' kd) \<longleftrightarrow> h \<in> set (hook_points s kd))" by blast
  from up' have up: "\<And>p. p \<notin> (case admin_urlpatterns e of None \<Rightarrow> {} | Some ps \<Rightarrow> set ps) \<Longrightarrow>
          (p \<in> set (url_patterns s') \<longleftrightarrow> p \<in> set (url_patterns s))" by blast
  have ik': "instances_known s'"
    unfolding instances_known_def
  proof (intro allI impI)
    fix j assume "extension_instances s' j \<noteq> None"
    with i' have "j \<noteq> k" "extension_instances s j \<noteq> None" by (auto split: if_splits)
    with ik lo show "lookup_class s' j \<noteq> None" unfolding instances_known_def by simp
  qed
  have rr': "requirements_resolved rk s'" using requirements_resolved_cong[OF cv] rr by simp
  have hr': "hooks_registered s'"
    unfolding hooks_registered_def
  proof (intro allI impI)
    fix j ej assume "extension_instances s' j = Some ej"
    with i' have j: "j \<noteq> k" "extension_instances s j = Some ej" by (auto split: if_splits)
    note H = hr[unfolded hooks_registered_def, rule_format, OF j(2)]
    from H have d: "distinct (hooks ej)" by (rule conjunct1)
    from H have m: "\<forall>h\<in>set (hooks ej). h \<in> set (hook_points s (fst h))"
      by (elim conjE)
    from H have dj: "\<forall>k' e'. k' \<noteq> j \<longrightarrow> extension_instances s k' = Some e' \<longrightarrow>
           set (hooks ej) \<inter> set (hooks e') = {}"
      by (elim conjE)
    from dj j(1) e have dis: "set (hooks ej) \<inter> set (hooks e) = {}" by metis
    have m': "\<forall>h\<in>set (hooks ej). h \<in> set (hook_points s' (fst h))"
    proof
      fix h assume h: "h \<in> set (hooks ej)"
      with dis have "h \<notin> set (hooks e)" by blast
      from hk[OF this, of "fst h"] m h show "h \<in> set (hook_points s' (fst h))" by simp
    qed
    have dj': "\<forall>k' e'. k' \<noteq> j \<longrightarrow> extension_instances s' k' = Some e' \<longrightarrow>
           set (hooks ej) \<inter> set (hooks e') = {}"
    proof (intro allI impI)
      fix k' e' assume a: "k' \<noteq> j" "extension_instances s' k' = Some e'"
      from a(2) i' have "extension_instances s k' = Some e'" by (auto split: if_splits)
      with dj a(1) show "set (hooks ej) \<inter> set (hooks e') = {}" by metis
    qed
    from d m' dj' show "distinct (hooks ej) \<and> (\<forall>h\<in>set (hooks ej). h \<in> set (hook_points s' (fst h))) \<and>
        (\<forall>k' e'. k' \<noteq> j \<longrightarrow> extension_instances s' k' = Some e' \<longrightarrow>
           set (hooks ej) \<inter> set (hooks e') = {})" by (intro conjI)
  qed
  have ur': "urlpatterns_registered s'"
    unfolding urlpatterns_registered_def
  proof (intro allI impI)
    fix j ej ps assume a: "extension_instances s' j = Some ej" "admin_urlpatterns ej = Some ps"
    with i' have j: "j \<noteq> k" "extension_instances s j = Some ej" by (auto split: if_splits)
    note H = ur[unfolded urlpatterns_registered_def, rule_format, OF j(2) a(2)]
    from H have d: "distinct ps" by (rule conjunct1)
    from H have m: "set ps \<subseteq> set (url_patterns s)" by (elim conjE)
    from H have dj: "\<forall>k' e' ps'. k' \<noteq> j \<longrightarrow> extension_instances s k' = Some e' \<longrightarrow>
           admin_urlpatterns e' = Some ps' \<longrightarrow> set ps \<inter> set ps' = {}"
      by (elim conjE)
    have dis: "set ps \<inter> (case admin_urlpatterns e of None \<Rightarrow> {} | Some ps \<Rightarrow> set ps) = {}"
    proof (cases "admin_urlpatterns e")
      case None then show ?thesis by simp
    next
      case (Some qs)
      with dj j(1) e have "set ps \<inter> set qs = {}" by metis
      with Some show ?thesis by simp
    qed
    have m': "set ps \<subseteq> set (url_patterns s')"
    proof
      fix p assume p: "p \<in> set ps"
      with dis have "p \<notin> (case admin_urlpatterns e of None \<Rightarrow> {} | Some ps \<Rightarrow> set ps)" by blast
      from up[OF this] m p show "p \<in> set (url_patterns s')" by auto
    qed
    have dj': "\<forall>k' e' ps'. k' \<noteq> j \<longrightarrow> extension_instances s' k' = Some e' \<longrightarrow>
           admin_urlpatterns e' = Some ps' \<longrightarrow> set ps \<inter> set ps' = {}"
    proof (intro allI impI)
      fix k' e' ps' assume b: "k' \<noteq> j" "extension_instances s' k' = Some e'"
        "admin_urlpatterns e' = Some ps'"
      from b(2) i' have "extension_instances s k' = Some e'" by (auto split: if_splits)
      with dj b(1,3) show "set ps \<inter> set ps' = {}" by metis
    qed
    from d m' dj' show "distinct ps \<and> set ps \<subseteq> set (url_patterns s') \<and>
        (\<forall>k' e' ps'. k' \<noteq> j \<longrightarrow> extension_instances s' k' = Some e' \<longrightarrow>
           admin_urlpatterns e' = Some ps' \<longrightarrow> set ps \<inter> set ps' = {})" by (intro conjI)
  qed
  have rd': "ready_to_disable rk s'"
    using ik' rr' hr' ur' unfolding ready_to_disable_def by blast
  have P3: "\<forall>j. extension_instances s' j = extension_instances s j \<or>
          (extension_instances s' j = None \<and> (\<exists>k'\<in>{k}. rk j \<le> rk k'))"
    using i' by auto
  have P5: "\<forall>j c'. lookup_class s' j = Some c' \<longrightarrow> extension_instances s j \<noteq> None \<longrightarrow>
          extension_instances s' j = None \<longrightarrow> \<not> enabled (registration c')"
    using i' lk by (auto split: if_splits)
  have P6: "\<forall>j c0 c'. lookup_class s j = Some c0 \<longrightarrow> lookup_class s' j = Some c' \<longrightarrow>
          enabled (registration c') \<longrightarrow> enabled (registration c0)"
  proof (intro allI impI)
    fix j c0 c' assume a: "lookup_class s j = Some c0" "lookup_class s' j = Some c'"
      "enabled (registration c')"
    show "enabled (registration c0)"
    proof (cases "j = k")
      case True with lk a show ?thesis by auto
    next
      case False with lo[of j] a show ?thesis by simp
    qed
  qed
  have P7: "\<exists>evs. events s' = events s @ evs \<and>
        (\<forall>j. ExtensionUninitialized j \<in> set evs \<longleftrightarrow>
             extension_instances s j \<noteq> None \<and> extension_instances s' j = None)"
  proof (intro exI conjI allI)
    show "events s' = events s @ teardown_events k c e s" by (rule ev)
    fix j
    have "ExtensionUninitialized j \<in> set (teardown_events k c e s) \<longleftrightarrow> j = k"
      by (auto simp: teardown_events_def split: option.splits)
    then show "ExtensionUninitialized j \<in> set (teardown_events k c e s) \<longleftrightarrow>
             extension_instances s j \<noteq> None \<and> extension_instances s' j = None"
      using i' e by auto
  qed
  have P2: "\<forall>k'\<in>{k}. extension_instances s' k' = None" using i' by simp
  have st: "disabled_step rk {k} s s'"
    unfolding disabled_step_def
    by (intro conjI) (fact rd' P2 P3 cv P5 P6 P7)+
  show thesis by (rule that[OF un s'_def st i' ev])
qed

lemma disabled_step_ready: "disabled_step rk S s s' \<Longrightarrow> ready_to_disable rk s'"
  unfolding disabled_step_def by (elim conjE)

lemma disabled_step_instances:
  "disabled_step rk S s s' \<Longrightarrow>
   extension_instances s' j = extension_instances s j \<or>
   (extension_instances s' j = None \<and> (\<exists>k\<in>S. rk j \<le> rk k))"
  unfolding disabled_step_def by (elim conjE) (erule allE)


lemma disabled_step_view: "disabled_step rk S s s' \<Longrightarrow> class_view frozen s' = class_view frozen s"
  unfolding disabled_step_def by (elim conjE)

lemma dependents_from_extension:
  assumes A: "\<And>k s. ready_to_disable rk s \<Longrightarrow> rk k < n \<Longrightarrow>
             \<exists>s'. disable_extension n k s = Some (Return (), s') \<and> disabled_step rk {k} s s'"
  shows "ready_to_disable rk s \<Longrightarrow> \<forall>d\<in>set ds. rk d < n \<Longrightarrow>
         \<exists>s'. disable_dependents n ds s = Some (Return (), s') \<and> disabled_step rk (set ds) s s'"
proof (induction ds arbitrary: s)
  case Nil
  then show ?case by (simp add: step_noop)
next
  case (Cons d ds)
  from Cons.prems have "rk d < n" by simp
  from A[OF Cons.prems(1) this] obtain s1 where
    s1: "disable_extension n d s = Some (Return (), s1)" "disabled_step rk {d} s s1" by blast
  from Cons.prems have "\<forall>d\<in>set ds. rk d < n" by simp
  from Cons.IH[OF disabled_step_ready[OF s1(2)] this] obtain s2 where
    s2: "disable_dependents n ds s1 = Some (Return (), s2)" "disabled_step rk (set ds) s1 s2"
    by blast
  have "disable_dependents n (d # ds) s = Some (Return (), s2)" using s1(1) s2(1) by simp
  moreover have "disabled_step rk (set (d # ds)) s s2"
    using step_trans[OF s1(2) s2(2)] by simp
  ultimately show ?case by blast
qed

lemma disable_enabled:
  assumes B: "\<And>ds s. ready_to_disable rk s \<Longrightarrow> \<forall>d\<in>set ds. rk d < n \<Longrightarrow>
             \<exists>s'. disable_dependents n ds s = Some (Return (), s') \<and>
                  disabled_step rk (set ds) s s'"
    and rd: "ready_to_disable rk s"
    and e: "extension_instances s k = Some e" and c: "lookup_class s k = Some c"
    and n: "rk k \<le> n"
  obtains ds s1 s' where
    "get_dependent_extensions s k = Return ds"
    "set ds = {d. d \<noteq> k \<and> (\<exists>cd. (d, cd) \<in> set (extension_classes s) \<and> k \<in> set (requirements cd))}"
    "disable_dependents n ds s = Some (Return (), s1)"
    "disabled_step rk (set ds) s s1"
    "extension_instances s1 k = Some e"
    "disable_extension (Suc n) k s = Some (Return (), s')"
    "disabled_step rk {k} s1 s'"
    "disabled_step rk {k} s s'"
    "extension_instances s' = (extension_instances s1)(k := None)"
    "events s' = events s1 @ teardown_events k c e s1"
proof -
  from rd have rr: "requirements_resolved rk s" unfolding ready_to_disable_def by (elim conjE)
  have rrD: "\<And>d cd. (d, cd) \<in> set (extension_classes s) \<Longrightarrow>
      info_requirements (info cd) = Some (requirements cd) \<and>
      (\<forall>r\<in>set (requirements cd). r \<noteq> d \<longrightarrow> rk d < rk r)"
    using rr unfolding requirements_resolved_def by blast
  have "\<forall>(d, cd)\<in>set (extension_classes s). info_requirements (info cd) \<noteq> None"
    using rrD by auto
  from dependents_scan_ok[OF this, of k] obtain ds where
    ds: "dependents_scan k (extension_classes s) = Return ds"
    "set ds = {d. d \<noteq> k \<and> (\<exists>cd rs. (d, cd) \<in> set (extension_classes s) \<and>
                                  info_requirements (info cd) = Some rs \<and> k \<in> set rs)}"
    by blast
  have g1: "get_dependent_extensions s k = Return ds"
    using e c ds(1) by (simp add: get_dependent_extensions_def get_installed_extension_def domIff)
  have g2: "set ds = {d. d \<noteq> k \<and> (\<exists>cd. (d, cd) \<in> set (extension_classes s) \<and>
                                   k \<in> set (requirements cd))}"
  proof (rule set_eqI)
    fix d
    show "d \<in> set ds \<longleftrightarrow> d \<in> {d. d \<noteq> k \<and> (\<exists>cd. (d, cd) \<in> set (extension_classes s) \<and>
                                   k \<in> set (requirements cd))}"
    proof
      assume "d \<in> set ds"
      with ds(2) obtain cd rs where x: "d \<noteq> k" "(d, cd) \<in> set (extension_classes s)"
        "info_requirements (info cd) = Some rs" "k \<in> set rs" by blast
      from rrD[OF x(2)] x(3) have "rs = requirements cd" by simp
      with x show "d \<in> {d. d \<noteq> k \<and> (\<exists>cd. (d, cd) \<in> set (extension_classes s) \<and>
                                   k \<in> set (requirements cd))}" by blast
    next
      assume "d \<in> {d. d \<noteq> k \<and> (\<exists>cd. (d, cd) \<in> set (extension_classes s) \<and>
                                   k \<in> set (requirements cd))}"
      then obtain cd where x: "d \<noteq> k" "(d, cd) \<in> set (extension_classes s)"
        "k \<in> set (requirements cd)" by blast
      from rrD[OF x(2)] have "info_requirements (info cd) = Some (requirements cd)" by simp
      with x ds(2) show "d \<in> set ds" by blast
    qed
  qed
  have lower: "\<forall>d\<in>set ds. rk d < rk k"
  proof
    fix d assume "d \<in> set ds"
    with g2 obtain cd where x: "d \<noteq> k" "(d, cd) \<in> set (extension_classes s)"
        "k \<in> set (requirements cd)" by blast
    from rrD[OF x(2)] have "\<forall>r\<in>set (requirements cd). r \<noteq> d \<longrightarrow> rk d < rk r"
      by (rule conjunct2)
    from this[rule_format, OF x(3)] x(1) show "rk d < rk k" by simp
  qed
  with n have "\<forall>d\<in>set ds. rk d < n" by auto
  from B[OF rd this] obtain s1 where
    s1: "disable_dependents n ds s = Some (Return (), s1)" "disabled_step rk (set ds) s s1"
    by blast
  have e1: "extension_instances s1 k = Some e"
  proof -
    from disabled_step_instances[OF s1(2), of k]
    show ?thesis
    proof
      assume "extension_instances s1 k = extension_instances s k"
      with e show ?thesis by simp
    next
      assume "extension_instances s1 k = None \<and> (\<exists>d\<in>set ds. rk k \<le> rk d)"
      then obtain d where "d \<in> set ds" "rk k \<le> rk d" by blast
      with lower have False by (auto simp: not_less[symmetric])
      then show ?thesis ..
    qed
  qed
  from lookup_class_view_cong[OF disabled_step_view[OF s1(2)], of k] c
  have "map_option frozen (lookup_class s1 k) = Some (frozen c)" by simp
  then obtain c1 where c1: "lookup_class s1 k = Some c1" "frozen c1 = frozen c"
    by (cases "lookup_class s1 k") auto
  from c1(2) have "installed (registration (frozen c1)) = installed (registration (frozen c))"
    by (rule arg_cong)
  then have inst: "installed (registration c1) = installed (registration c)"
    by (simp only: frozen_fields)
  from disabled_step_ready[OF s1(2)] e1 c1(1) inst obtain s2 s' where
    t: "uninit_extension k c e (uninstall_extension c s1) = (Return (), s2)"
    "s' = registration_save k (set_registration k (\<lambda>r. r\<lparr>enabled := False\<rparr>) s2)"
    "disabled_step rk {k} s1 s'"
    "extension_instances s' = (extension_instances s1)(k := None)"
    "events s' = events s1 @ teardown_events k c e s1"
    by (rule step_teardown)
  have g6: "disable_extension (Suc n) k s = Some (Return (), s')"
    using e c g1 s1(1) t(1,2) by simp
  have "disabled_step rk (set ds \<union> {k}) s s'" using step_trans[OF s1(2) t(3)] .
  moreover have "\<forall>k'\<in>set ds \<union> {k}. \<exists>k''\<in>{k}. rk k' \<le> rk k''" using lower by auto
  moreover have "\<forall>k'\<in>{k}. extension_instances s' k' = None" using t(4) by simp
  ultimately have g8: "disabled_step rk {k} s s'" by (rule step_weaken)
  show thesis by (rule that[OF g1 g2 s1(1) s1(2) e1 g6 t(3) g8 t(4) t(5)])
qed

lemma disable_main:
  "(\<forall>k s. ready_to_disable rk s \<longrightarrow> rk k < n \<longrightarrow>
      (\<exists>s'. disable_extension n k s = Some (Return (), s') \<and> disabled_step rk {k} s s')) \<and>
   (\<forall>ds s. ready_to_disable rk s \<longrightarrow> (\<forall>d\<in>set ds. rk d < n) \<longrightarrow>
      (\<exists>s'. disable_dependents n ds s = Some (Return (), s') \<and>
            disabled_step rk (set ds) s s'))"
proof (induction n)
  case 0
  have "\<And>k s. ready_to_disable rk s \<Longrightarrow> rk k < 0 \<Longrightarrow>
      \<exists>s'. disable_extension 0 k s = Some (Return (), s') \<and> disabled_step rk {k} s s'"
    by simp
  from dependents_from_extension[OF this] show ?case by simp
next
  case (Suc n)
  then have B: "\<And>ds s. ready_to_disable rk s \<Longrightarrow> \<forall>d\<in>set ds. rk d < n \<Longrightarrow>
             \<exists>s'. disable_dependents n ds s = Some (Return (), s') \<and>
                  disabled_step rk (set ds) s s'" by blast
  have A: "\<And>k s. ready_to_disable rk s \<Longrightarrow> rk k < Suc n \<Longrightarrow>
      \<exists>s'. disable_extension (Suc n) k s = Some (Return (), s') \<and> disabled_step rk {k} s s'"
  proof -
    fix k s assume rd: "ready_to_disable rk s" and n: "rk k < Suc n"
    show "\<exists>s'. disable_extension (Suc n) k s = Some (Return (), s') \<and> disabled_step rk {k} s s'"
    proof (cases "extension_instances s k")
      case None
      then show ?thesis using step_noop[OF rd, of "{k}"] by simp
    next
      case (Some e)
      from rd Some obtain c where c: "lookup_class s k = Some c"
        unfolding ready_to_disable_def instances_known_def by fastforce
      from n have "rk k \<le> n" by simp
      from disable_enabled[of rk n s k e c, OF B rd Some c this]
      show ?thesis by metis
    qed
  qed
  from A dependents_from_extension[OF A] show ?case by blast
qed

lemma disabled_step_flag:
  "disabled_step rk S s s' \<Longrightarrow> lookup_class s' j = Some c' \<Longrightarrow>
   extension_instances s j \<noteq> None \<Longrightarrow> extension_instances s' j = None \<Longrightarrow>
   \<not> enabled (registration c')"
  unfolding disabled_step_def by (elim conjE) metis


lemma ExtensionUninitialized_teardown [simp]:
  "ExtensionUninitialized j \<in> set (teardown_events k c e s) \<longleftrightarrow> j = k"
  by (auto simp: teardown_events_def split: option.splits)


lemma a_enabled_ready: "ready_to_disable dependents_below a_enabled_manager"
  unfolding ready_to_disable_def
proof (intro conjI)
  show "instances_known a_enabled_manager"
    by (simp add: instances_known_def lookup_class_def example_defs)
  show "requirements_resolved dependents_below a_enabled_manager"
    by (simp add: requirements_resolved_def example_defs)
  show "hooks_registered a_enabled_manager"
    by (simp add: hooks_registered_def example_defs)
  show "urlpatterns_registered a_enabled_manager"
    by (simp add: urlpatterns_registered_def example_defs)
qed

lemma disable_main_dependents:
  "ready_to_disable rk s \<Longrightarrow> \<forall>d\<in>set ds. rk d < m \<Longrightarrow>
   \<exists>s'. disable_dependents m ds s = Some (Return (), s') \<and> disabled_step rk (set ds) s s'"
  using disable_main[of rk m] by blast

subsection \<open>Installing and initializing\<close>

lemma add_to_installed_apps_fields [simp]:
  "extension_classes (add_to_installed_apps a s) = extension_classes s"
  "extension_instances (add_to_installed_apps a s) = extension_instances s"
  "hook_points (add_to_installed_apps a s) = hook_points s"
  "url_patterns (add_to_installed_apps a s) = url_patterns s"
  "next_oid (add_to_installed_apps a s) = next_oid s"
  "lookup_class (add_to_installed_apps a s) = lookup_class s"
  by (simp_all add: add_to_installed_apps_def lookup_class_def fun_eq_iff)

lemma remove_from_installed_apps_fields [simp]:
  "extension_classes (remove_from_installed_apps a s) = extension_classes s"
  "extension_instances (remove_from_installed_apps a s) = extension_instances s"
  "hook_points (remove_from_installed_apps a s) = hook_points s"
  "url_patterns (remove_from_installed_apps a s) = url_patterns s"
  "next_oid (remove_from_installed_apps a s) = next_oid s"
  "lookup_class (remove_from_installed_apps a s) = lookup_class s"
  by (simp_all add: remove_from_installed_apps_def lookup_class_def fun_eq_iff)

lemma rmtree_fields [simp]:
  "extension_classes (rmtree p s) = extension_classes s"
  "extension_instances (rmtree p s) = extension_instances s"
  "hook_points (rmtree p s) = hook_points s"
  "url_patterns (rmtree p s) = url_patterns s"
  "next_oid (rmtree p s) = next_oid s"
  "installed_apps (rmtree p s) = installed_apps s"
  "lookup_class (rmtree p s) = lookup_class s"
  "events (rmtree p s) = events s @ [Rmtree p]"
  by (simp_all add: rmtree_def lookup_class_def fun_eq_iff)

lemma events_apps:
  "\<exists>evs. events (add_to_installed_apps a s) = events s @ evs \<and> set evs \<subseteq> {InstalledAppsAppend a}"
  "\<exists>evs. events (remove_from_installed_apps a s) = events s @ evs \<and>
         set evs \<subseteq> {InstalledAppsRemove a}"
  by (simp_all add: add_to_installed_apps_def remove_from_installed_apps_def)

lemma install_extension_frame:
  assumes "install_extension k c s = (r, s')"
  shows "extension_instances s' = extension_instances s"
    and "hook_points s' = hook_points s" and "url_patterns s' = url_patterns s"
    and "next_oid s' = next_oid s"
  using assms
  by (auto simp: install_extension_def Let_def split: if_splits option.splits)

lemma install_extension_events:
  assumes "install_extension k c s = (r, s')"
  shows "\<exists>evs. events s' = events s @ evs \<and> (\<forall>ev\<in>set evs. install_event ev)"
  using assms
  by (auto simp: install_extension_def Let_def events_registration_save install_event_def
      add_to_installed_apps_def remove_from_installed_apps_def
      split: if_splits option.splits)

lemma initialized_ids_simps [simp]:
  "initialized_ids [] = []"
  "initialized_ids (xs @ ys) = initialized_ids xs @ initialized_ids ys"
  "initialized_ids (ExtensionInitialized j # xs) = j # initialized_ids xs"
  by (simp_all add: initialized_ids_def)

lemma initialized_ids_install: "\<forall>ev\<in>set evs. install_event ev \<Longrightarrow> initialized_ids evs = []"
  by (induction evs) (auto simp: initialized_ids_def install_event_def split: event.splits)

lemma initialized_ids_AddHook [simp]: "initialized_ids (map AddHook hs) = []"
  by (induction hs) (auto simp: initialized_ids_def)

lemma add_hook_fields [simp]:
  "extension_classes (add_hook h s) = extension_classes s"
  "extension_instances (add_hook h s) = extension_instances s"
  "url_patterns (add_hook h s) = url_patterns s"
  "installed_apps (add_hook h s) = installed_apps s"
  "next_oid (add_hook h s) = next_oid s"
  "events (add_hook h s) = events s @ [AddHook h]"
  "hook_points (add_hook h s) = (hook_points s)(fst h := hook_points s (fst h) @ [h])"
  by (simp_all add: add_hook_def)

lemma create_hooks_effect:
  "create_hooks kds e s = (e', s') \<Longrightarrow>
   extension_classes s' = extension_classes s \<and>
   extension_instances s' = extension_instances s \<and>
   url_patterns s' = url_patterns s \<and> installed_apps s' = installed_apps s \<and>
   next_oid s' = next_oid s + length kds \<and>
   ext_settings e' = ext_settings e \<and> admin_urlpatterns e' = admin_urlpatterns e \<and>
   (\<exists>new. hooks e' = hooks e @ new \<and> events s' = events s @ map AddHook new \<and>
      map fst new = kds \<and> distinct new \<and> (\<forall>h\<in>set new. next_oid s \<le> snd h) \<and>
      (\<forall>h\<in>set new. snd h < next_oid s + length kds) \<and>
      (\<forall>kd. hook_points s' kd = hook_points s kd @ filter (\<lambda>h. fst h = kd) new))"
proof (induction kds arbitrary: e s)
  case Nil
  then show ?case by simp
next
  case (Cons kd kds)
  let ?h = "(kd, next_oid s)"
  let ?e1 = "e\<lparr>hooks := hooks e @ [?h]\<rparr>"
  let ?s1 = "add_hook ?h (s\<lparr>next_oid := Suc (next_oid s)\<rparr>)"
  from Cons.prems have "create_hooks kds ?e1 ?s1 = (e', s')" by (simp add: Let_def)
  from Cons.IH[OF this] obtain new where
    a: "extension_classes s' = extension_classes ?s1"
    "extension_instances s' = extension_instances ?s1"
    "url_patterns s' = url_patterns ?s1" "installed_apps s' = installed_apps ?s1"
    "next_oid s' = next_oid ?s1 + length kds"
    "ext_settings e' = ext_settings ?e1" "admin_urlpatterns e' = admin_urlpatterns ?e1"
    and n: "hooks e' = hooks ?e1 @ new" "events s' = events ?s1 @ map AddHook new"
    "\<forall>kd'. hook_points s' kd' = hook_points ?s1 kd' @ filter (\<lambda>h. fst h = kd') new"
    "map fst new = kds" "distinct new" "\<forall>h\<in>set new. next_oid ?s1 \<le> snd h"
    "\<forall>h\<in>set new. snd h < next_oid ?s1 + length kds"
    by blast
  have z: "map fst (?h # new) = kd # kds" "distinct (?h # new)"
    "\<forall>h\<in>set (?h # new). next_oid s \<le> snd h"
    "\<forall>h\<in>set (?h # new). snd h < next_oid s + length (kd # kds)"
    using n(4,5,6,7) by (auto simp: Suc_le_eq)
  have "hooks e' = hooks e @ (?h # new)" using n(1) by simp
  moreover have "events s' = events s @ map AddHook (?h # new)" using n(2) by simp
  moreover have "\<forall>kd'. hook_points s' kd' = hook_points s kd' @ filter (\<lambda>h. fst h = kd') (?h # new)"
    using n(3) by simp
  ultimately show ?case using a z by (intro conjI exI[of _ "?h # new"]) simp_all
qed

lemma Extension_init_effect:
  assumes "Extension_init k c s = (e, s')"
  shows "extension_classes s' = extension_classes s" "extension_instances s' = extension_instances s"
    "url_patterns s' = url_patterns s" "installed_apps s' = installed_apps s"
    "next_oid s' = next_oid s + length (ctor_hooks c)" "admin_urlpatterns e = None"
    "events s' = events s @ map AddHook (hooks e)"
    "map fst (hooks e) = ctor_hooks c" "distinct (hooks e)"
    "\<forall>h\<in>set (hooks e). next_oid s \<le> snd h" "\<forall>h\<in>set (hooks e). snd h < next_oid s'"
    "\<forall>kd. hook_points s' kd = hook_points s kd @ filter (\<lambda>h. fst h = kd) (hooks e)"
  using create_hooks_effect[OF assms[unfolded Extension_init_def]] by auto

text \<open>The state in which \<^verbatim>\<open>_init_extension\<close> has put the new instance into
  \<^verbatim>\<open>_extension_instances\<close>.\<close>
lemma init_extension_unfold:
  assumes k: "extension_instances s k = None" and x: "Extension_init k c s = (e, s1)"
  shows "init_extension k c s =
     (let s2 = log (InstanceRegistered k)
                 (s1\<lparr>extension_instances := (extension_instances s1)(k \<mapsto> e)\<rparr>)
      in case (if is_configurable c then install_admin_urls k c e s2 else (Return e, s2)) of
           (Raise err, s3) \<Rightarrow> (Raise err, s3)
         | (Return e', s3) \<Rightarrow>
             (Return e',
              log (ExtensionInitialized k)
                (reset_templatetags_cache
                   (add_to_installed_apps (info_app_name (info c))
                      (set_info k (\<lambda>c'. (info c')\<lparr>info_installed := installed (registration c'),
                                                  info_enabled := True\<rparr>) s3)))))"
  using k x by (auto simp: init_extension_def domIff Let_def split: prod.splits result.splits)

lemma install_admin_urls_effect:
  assumes "install_admin_urls k c e s = (r, s')"
  shows "extension_classes s' = extension_classes s" "hook_points s' = hook_points s"
    "installed_apps s' = installed_apps s"
    "(\<exists>m. r = Raise (ImproperlyConfigured m) \<and> admin_urlconf c = None \<and> s' = s) \<or>
     (r = Return e \<and> admin_urlconf c = Some False \<and> s' = s) \<or>
     (r = Return (e\<lparr>admin_urlpatterns := Some [(next_oid s, k)]\<rparr>) \<and> admin_urlconf c = Some True \<and>
      extension_instances s' = (extension_instances s)(k \<mapsto> e\<lparr>admin_urlpatterns := Some [(next_oid s, k)]\<rparr>) \<and>
      url_patterns s' = url_patterns s @ [(next_oid s, k)] \<and> next_oid s' = Suc (next_oid s) \<and>
      events s' = events s @ [UrlPatternsExtend [(next_oid s, k)]])"
  using assms by (auto simp: install_admin_urls_def Let_def split: option.splits if_splits)

lemma init_extension_instances:
  assumes k: "extension_instances s k = None" and i: "init_extension k c s = (r, s')"
  shows "\<exists>e. extension_instances s' = (extension_instances s)(k \<mapsto> e) \<and>
           hooks e = hooks (fst (Extension_init k c s)) \<and>
           (r = Return e \<or> (\<exists>m. r = Raise (ImproperlyConfigured m) \<and> is_configurable c \<and>
                                  admin_urlconf c = None))"
proof -
  obtain e s1 where x: "Extension_init k c s = (e, s1)" by (cases "Extension_init k c s")
  note f = Extension_init_effect[OF x]
  let ?s2 = "log (InstanceRegistered k) (s1\<lparr>extension_instances := (extension_instances s1)(k \<mapsto> e)\<rparr>)"
  have i2: "extension_instances ?s2 = (extension_instances s)(k \<mapsto> e)" using f(2) by simp
  show ?thesis
  proof (cases "is_configurable c")
    case False
    with i init_extension_unfold[OF k x] i2 x show ?thesis
      by (auto simp: Let_def reset_templatetags_cache_def)
  next
    case True
    obtain r3 s3 where a: "install_admin_urls k c e ?s2 = (r3, s3)"
      by (cases "install_admin_urls k c e ?s2")
    from install_admin_urls_effect(4)[OF a]
    show ?thesis
    proof (elim disjE conjE exE)
      fix m assume "r3 = Raise (ImproperlyConfigured m)" "admin_urlconf c = None" "s3 = ?s2"
      with i init_extension_unfold[OF k x] True a i2 x show ?thesis
        by (auto simp: Let_def)
    next
      assume "r3 = Return e" "admin_urlconf c = Some False" "s3 = ?s2"
      with i init_extension_unfold[OF k x] True a i2 x show ?thesis
        by (auto simp: Let_def reset_templatetags_cache_def)
    next
      assume b: "r3 = Return (e\<lparr>admin_urlpatterns := Some [(next_oid ?s2, k)]\<rparr>)"
        "extension_instances s3 = (extension_instances ?s2)(k \<mapsto> e\<lparr>admin_urlpatterns := Some [(next_oid ?s2, k)]\<rparr>)"
      with i init_extension_unfold[OF k x] True a i2 x show ?thesis
        by (auto simp: Let_def reset_templatetags_cache_def)
    qed
  qed
qed

lemma unflagged_updates [simp]:
  "unflagged (c\<lparr>info := (info c)\<lparr>info_enabled := b\<rparr>\<rparr>) = unflagged c"
  "unflagged (c\<lparr>info := (info c)\<lparr>info_installed := b, info_enabled := b'\<rparr>\<rparr>) = unflagged c"
  "unflagged (c\<lparr>registration := (registration c)\<lparr>enabled := b\<rparr>\<rparr>) = unflagged c"
  "unflagged (c\<lparr>registration := (registration c)\<lparr>installed := b\<rparr>\<rparr>) = unflagged c"
  by (simp_all add: unflagged_def)

lemma unflagged_fields [simp]:
  "requirements (unflagged c) = requirements c"
  "is_configurable (unflagged c) = is_configurable c"
  "has_htdocs (unflagged c) = has_htdocs c"
  "admin_urlconf (unflagged c) = admin_urlconf c"
  "copytree_error (unflagged c) = copytree_error c"
  "syncdb_error (unflagged c) = syncdb_error c"
  "evolve_error (unflagged c) = evolve_error c"
  "ctor_hooks (unflagged c) = ctor_hooks c"
  "info_requirements (info (unflagged c)) = info_requirements (info c)"
  by (simp_all add: unflagged_def)

lemma class_view_unflagged_set [simp]:
  "class_view unflagged (set_registration k (\<lambda>r. r\<lparr>enabled := b\<rparr>) s) = class_view unflagged s"
  "class_view unflagged (set_registration k (\<lambda>r. r\<lparr>installed := b\<rparr>) s) = class_view unflagged s"
  "class_view unflagged (set_info k (\<lambda>c'. (info c')\<lparr>info_enabled := b\<rparr>) s) = class_view unflagged s"
  "class_view unflagged (set_info k (\<lambda>c'. (info c')\<lparr>info_installed := installed (registration c'),
                                                   info_enabled := b'\<rparr>) s) = class_view unflagged s"
  unfolding set_info_def set_registration_def
  by (rule class_view_update_class, simp)+

lemma class_view_same_classes [simp]:
  "class_view g (add_to_installed_apps a s) = class_view g s"
  "class_view g (remove_from_installed_apps a s) = class_view g s"
  "class_view g (rmtree p s) = class_view g s"
  "class_view g (reset_templatetags_cache s) = class_view g s"
  by (simp_all add: class_view_def reset_templatetags_cache_def)

lemma lookup_class_record_updates [simp]:
  "lookup_class (s\<lparr>fs := x\<rparr>) = lookup_class s"
  "lookup_class (s\<lparr>next_oid := n\<rparr>) = lookup_class s"
  "lookup_class (s\<lparr>extension_instances := i\<rparr>) = lookup_class s"
  "lookup_class (s\<lparr>url_patterns := u\<rparr>) = lookup_class s"
  "lookup_class (s\<lparr>hook_points := h\<rparr>) = lookup_class s"
  by (simp_all add: lookup_class_def fun_eq_iff)

lemma class_view_record_updates [simp]:
  "class_view g (s\<lparr>fs := x\<rparr>) = class_view g s"
  "class_view g (s\<lparr>next_oid := n\<rparr>) = class_view g s"
  "class_view g (s\<lparr>extension_instances := i\<rparr>) = class_view g s"
  "class_view g (s\<lparr>url_patterns := u\<rparr>) = class_view g s"
  "class_view g (s\<lparr>hook_points := h\<rparr>) = class_view g s"
  by (simp_all add: class_view_def)

lemma install_extension_copy_fails:
  "has_htdocs c \<Longrightarrow> copytree_error c = Some m \<Longrightarrow>
   \<exists>s'. install_extension k c s = (Raise (OSError m), s') \<and>
        extension_classes s' = extension_classes s"
  by (simp add: install_extension_def Let_def)

lemma install_extension_syncdb_fails:
  "has_htdocs c \<longrightarrow> copytree_error c = None \<Longrightarrow> syncdb_error c = Some m \<Longrightarrow>
   \<exists>s'. install_extension k c s = (Raise (CommandError m), s') \<and>
        (\<forall>j. lookup_class s' j =
           (if j = k then map_option (\<lambda>c. c\<lparr>registration := (registration c)\<lparr>installed := True\<rparr>\<rparr>)
                            (lookup_class s k)
            else lookup_class s j))"
  by (auto simp: install_extension_def Let_def)

lemma install_extension_evolve_fails:
  "has_htdocs c \<longrightarrow> copytree_error c = None \<Longrightarrow> syncdb_error c = None \<Longrightarrow>
   evolve_error c = Some m \<Longrightarrow>
   \<exists>s'. install_extension k c s = (Raise (InstallExtensionError m), s') \<and>
        (\<forall>j. lookup_class s' j =
           (if j = k then map_option (\<lambda>c. c\<lparr>registration := (registration c)\<lparr>installed := True\<rparr>\<rparr>)
                            (lookup_class s k)
            else lookup_class s j))"
  by (auto simp: install_extension_def Let_def)

lemma install_extension_ok:
  "has_htdocs c \<longrightarrow> copytree_error c = None \<Longrightarrow> syncdb_error c = None \<Longrightarrow>
   evolve_error c = None \<Longrightarrow>
   \<exists>s'. install_extension k c s = (Return (), s') \<and>
        (\<forall>j. lookup_class s' j =
           (if j = k then map_option (\<lambda>c. c\<lparr>registration := (registration c)\<lparr>installed := True\<rparr>\<rparr>)
                            (lookup_class s k)
            else lookup_class s j))"
  by (auto simp: install_extension_def Let_def map_option.compositionality comp_def)

lemma class_view_save_set:
  assumes "\<And>c. g (f c) = g c"
  shows "class_view g (registration_save k (update_class k f s)) = class_view g s"
  by (simp add: class_view_update_class[of g f, OF assms])

lemma install_extension_view_gen:
  assumes g: "\<And>c. g (c\<lparr>registration := (registration c)\<lparr>installed := True\<rparr>\<rparr>) = g c"
    and i: "install_extension k c s = (r, s')"
  shows "class_view g s' = class_view g s"
proof -
  have u: "\<And>x. class_view g (set_registration k (\<lambda>r. r\<lparr>installed := True\<rparr>) x) = class_view g x"
    unfolding set_registration_def by (rule class_view_update_class) (rule g)
  from i show ?thesis
    by (auto simp: install_extension_def Let_def u split: if_splits option.splits)
qed

lemma install_extension_view:
  "install_extension k c s = (r, s') \<Longrightarrow> class_view unflagged s' = class_view unflagged s"
  by (rule install_extension_view_gen) simp_all

lemma init_extension_view_gen:
  assumes g: "\<And>c. g (c\<lparr>info := (info c)\<lparr>info_installed := installed (registration c),
                                          info_enabled := True\<rparr>\<rparr>) = g c"
    and i: "init_extension k c s = (r, s')"
  shows "class_view g s' = class_view g s"
proof (cases "extension_instances s k")
  case (Some e)
  with i show ?thesis by (simp add: init_extension_def domIff)
next
  case None
  have u: "\<And>x. class_view g (set_info k (\<lambda>c'. (info c')\<lparr>info_installed := installed (registration c'),
                                                   info_enabled := True\<rparr>) x) = class_view g x"
    unfolding set_info_def by (rule class_view_update_class) (rule g)
  obtain e s1 where x: "Extension_init k c s = (e, s1)" by (cases "Extension_init k c s")
  note f = Extension_init_effect[OF x]
  let ?s2 = "log (InstanceRegistered k) (s1\<lparr>extension_instances := (extension_instances s1)(k \<mapsto> e)\<rparr>)"
  have v2: "class_view g ?s2 = class_view g s"
    using f(1) by (simp add: class_view_def)
  obtain r3 s3 where a: "(if is_configurable c then install_admin_urls k c e ?s2 else (Return e, ?s2)) = (r3, s3)"
    by (cases "if is_configurable c then install_admin_urls k c e ?s2 else (Return e, ?s2)")
  have "extension_classes s3 = extension_classes ?s2"
    using a install_admin_urls_effect(1)[of k c e ?s2] by (auto split: if_splits)
  then have v3: "class_view g s3 = class_view g s"
    using v2 by (simp add: class_view_def)
  from i init_extension_unfold[OF None x] a v3 show ?thesis
    by (cases r3) (auto simp: Let_def u)
qed

lemma init_extension_view:
  "init_extension k c s = (r, s') \<Longrightarrow> class_view unflagged s' = class_view unflagged s"
  by (rule init_extension_view_gen) simp_all

lemma init_extension_Return:
  assumes "init_extension k c s = (Return e, s')"
  shows "extension_instances s' k = Some e \<and> extension_instances s k = None"
proof (cases "extension_instances s k")
  case (Some e0)
  with assms show ?thesis by (simp add: init_extension_def domIff)
next
  case None
  from init_extension_instances[OF None assms] None show ?thesis by auto
qed

lemma enable_extension_Return:
  assumes "enable_extension n k s = Some (Return r, s1)"
  shows "(r = None \<and> s1 = s \<and> extension_instances s k \<noteq> None) \<or>
         (\<exists>e. r = Some e \<and> extension_instances s1 k = Some e \<and> extension_instances s k = None)"
proof (cases n)
  case 0
  with assms show ?thesis by simp
next
  case (Suc m)
  show ?thesis
  proof (cases "extension_instances s k")
    case (Some e)
    with assms Suc show ?thesis by (simp add: domIff)
  next
    case None
    with assms Suc show ?thesis
      by (auto simp: domIff Let_def split: option.splits prod.splits result.splits
          dest: init_extension_Return)
  qed
qed

section \<open>Properties\<close>

text \<open>
  Claim C9, as the code has it. \<^verbatim>\<open>Settings.load\<close> always returns normally. When the
  persisted blob parses, \<^verbatim>\<open>load\<close> merges it into the in-memory mapping: every key of the
  blob takes the persisted value and every other key keeps its in-memory value; on the
  empty mapping of a newly constructed \<^verbatim>\<open>Settings\<close> the result is the blob. When the
  blob does not parse, the in-memory mapping is left as it was, which is empty for a newly
  constructed \<^verbatim>\<open>Settings\<close>.
\<close>
theorem Settings_load_merges:
  "fst (Settings_load reg self) = Return () \<and>
   (\<forall>blob. settings reg = Some blob \<longrightarrow>
      (\<forall>k. snd (Settings_load reg self) k = (case blob k of Some v \<Rightarrow> Some v | None \<Rightarrow> self k)) \<and>
      snd (Settings_init reg) = blob) \<and>
   (settings reg = None \<longrightarrow>
      snd (Settings_load reg self) = self \<and> snd (Settings_init reg) = Map.empty)"
  by (auto simp: Settings_load_def Settings_init_def map_add_def split: option.splits)

text \<open>The statement at a registration with the blob \<open>{b: 2}\<close> and at one with a
  corrupt blob, for the in-memory mapping \<open>{a: 1}\<close>.\<close>
theorem Settings_load_merges_witness:
  "settings (example_registration (Some [''b'' \<mapsto> ''2''])) = Some [''b'' \<mapsto> ''2''] \<and>
   snd (Settings_load (example_registration (Some [''b'' \<mapsto> ''2''])) [''a'' \<mapsto> ''1'']) ''a'' = Some ''1'' \<and>
   snd (Settings_load (example_registration (Some [''b'' \<mapsto> ''2''])) [''a'' \<mapsto> ''1'']) ''b'' = Some ''2'' \<and>
   snd (Settings_init (example_registration (Some [''b'' \<mapsto> ''2'']))) = [''b'' \<mapsto> ''2''] \<and>
   settings (example_registration None) = None \<and>
   snd (Settings_load (example_registration None) [''a'' \<mapsto> ''1'']) = [''a'' \<mapsto> ''1''] \<and>
   snd (Settings_init (example_registration None)) = Map.empty"
  using Settings_load_merges [of "example_registration (Some [''b'' \<mapsto> ''2''])" "[''a'' \<mapsto> ''1'']"]
        Settings_load_merges [of "example_registration None" "[''a'' \<mapsto> ''1'']"]
  by (simp add: example_registration_def)

text \<open>Claim C9 as stated fails: with \<open>{a: 1}\<close> in memory, \<^verbatim>\<open>load\<close> of the blob
  \<open>{b: 2}\<close> does not leave the blob alone, and \<^verbatim>\<open>load\<close> of a corrupt blob does not leave
  the empty mapping.\<close>
theorem Settings_load_replaces_counterexample:
  "snd (Settings_load (example_registration (Some [''b'' \<mapsto> ''2''])) [''a'' \<mapsto> ''1''])
     \<noteq> [''b'' \<mapsto> ''2''] \<and>
   snd (Settings_load (example_registration None) [''a'' \<mapsto> ''1'']) \<noteq> Map.empty"
proof -
  have "snd (Settings_load (example_registration (Some [''b'' \<mapsto> ''2''])) [''a'' \<mapsto> ''1'']) ''a''
          \<noteq> [''b'' \<mapsto> ''2''] ''a''"
    by (simp add: Settings_load_def example_registration_def)
  moreover have "snd (Settings_load (example_registration None) [''a'' \<mapsto> ''1'']) ''a'' \<noteq> Map.empty ''a''"
    by (simp add: Settings_load_def example_registration_def)
  ultimately show ?thesis by metis
qed

text \<open>
  Claim C7, as the code has it. For an id that is not a key of \<^verbatim>\<open>_extension_classes\<close>
  and has no instance, \<^verbatim>\<open>enable_extension\<close> raises \<^verbatim>\<open>InvalidExtensionError\<close> for that
  id and leaves the state alone, and \<^verbatim>\<open>disable_extension\<close> returns normally and leaves
  the state alone: its test for an instance comes first.
\<close>
theorem unknown_extension_enable_raises_disable_returns:
  "k \<notin> set (map fst (extension_classes s)) \<Longrightarrow> extension_instances s k = None \<Longrightarrow>
   enable_extension (Suc n) k s = Some (Raise (InvalidExtensionError k), s) \<and>
   disable_extension (Suc n) k s = Some (Return (), s)"
proof -
  assume a: "k \<notin> set (map fst (extension_classes s))" and b: "extension_instances s k = None"
  from a have "lookup_class s k = None"
    by (simp add: lookup_class_def map_of_eq_None_iff)
  with b show ?thesis by (simp add: domIff)
qed

text \<open>The statement at the id \<open>missing\<close> and a manager that knows no extension.\<close>
theorem unknown_extension_enable_raises_disable_returns_witness:
  "''missing'' \<notin> set (map fst (extension_classes empty_manager)) \<and>
   extension_instances empty_manager ''missing'' = None \<and>
   enable_extension (Suc 0) ''missing'' empty_manager
     = Some (Raise (InvalidExtensionError ''missing''), empty_manager) \<and>
   disable_extension (Suc 0) ''missing'' empty_manager = Some (Return (), empty_manager)"
  using unknown_extension_enable_raises_disable_returns [of "''missing''" empty_manager 0]
  by (simp add: empty_manager_def)

text \<open>Claim C7 as stated fails: \<^verbatim>\<open>disable_extension\<close> of an id that was never
  discovered returns normally, it does not raise.\<close>
theorem disable_unknown_extension_counterexample:
  "disable_extension (Suc 0) ''missing'' empty_manager = Some (Return (), empty_manager)"
  by (simp add: empty_manager_def)



text \<open>
  Claim C8. For a manager that is ready to disable and an enabled extension whose
  registration is installed, \<^verbatim>\<open>disable_extension\<close> returns normally and leaves the
  registration installed and not enabled, which is what its last save persists; the
  installed flag of every other known class is unchanged too.
\<close>
theorem disable_extension_keeps_installed:
  assumes rd: "ready_to_disable rk s"
    and k: "extension_instances s k \<noteq> None" and c: "lookup_class s k = Some c"
    and ins: "installed (registration c)" and n: "rk k < n"
  shows "\<exists>s' c'. disable_extension n k s = Some (Return (), s') \<and>
           lookup_class s' k = Some c' \<and> installed (registration c') \<and>
           \<not> enabled (registration c') \<and>
           last (events s') = RegistrationSave k False True \<and>
           (\<forall>j cj. lookup_class s j = Some cj \<longrightarrow>
              (\<exists>cj'. lookup_class s' j = Some cj' \<and>
                     installed (registration cj') = installed (registration cj)))"
proof -
  from n obtain m where m: "n = Suc m" "rk k \<le> m" by (cases n) auto
  from k obtain e where e: "extension_instances s k = Some e" by blast
  from disable_main_dependents[of rk _ _ m] rd e c m(2) obtain ds s1 s' where
    f: "get_dependent_extensions s k = Return ds"
    "set ds = {d. d \<noteq> k \<and> (\<exists>cd. (d, cd) \<in> set (extension_classes s) \<and> k \<in> set (requirements cd))}"
    "disable_dependents m ds s = Some (Return (), s1)"
    "disabled_step rk (set ds) s s1"
    "extension_instances s1 k = Some e"
    "disable_extension (Suc m) k s = Some (Return (), s')"
    "disabled_step rk {k} s1 s'"
    "disabled_step rk {k} s s'"
    "extension_instances s' = (extension_instances s1)(k := None)"
    "events s' = events s1 @ teardown_events k c e s1"
    by (rule disable_enabled)
  have same: "\<And>j cj. lookup_class s j = Some cj \<Longrightarrow>
      \<exists>cj'. lookup_class s' j = Some cj' \<and> installed (registration cj') = installed (registration cj)"
  proof -
    fix j cj assume "lookup_class s j = Some cj"
    with lookup_class_view_cong[OF disabled_step_view[OF f(8)], of j]
    have "map_option frozen (lookup_class s' j) = Some (frozen cj)" by simp
    then obtain cj' where cj': "lookup_class s' j = Some cj'" "frozen cj' = frozen cj"
      by (cases "lookup_class s' j") auto
    from cj'(2) have "installed (registration (frozen cj')) = installed (registration (frozen cj))"
      by (rule arg_cong)
    then have "installed (registration cj') = installed (registration cj)"
      by (simp only: frozen_fields)
    with cj'(1) show "\<exists>cj'. lookup_class s' j = Some cj' \<and>
        installed (registration cj') = installed (registration cj)" by blast
  qed
  from same[OF c] ins obtain c' where c': "lookup_class s' k = Some c'" "installed (registration c')"
    by auto
  have gone: "extension_instances s' k = None" using f(9) by simp
  have off: "\<not> enabled (registration c')"
    by (rule disabled_step_flag[OF f(8) c'(1) k gone])
  have "last (events s') = RegistrationSave k False True"
    using f(10) ins by (simp add: teardown_events_def)
  with f(6) m(1) c' off same show ?thesis by blast
qed

text \<open>The statement for the manager in which \<open>A\<close> is enabled and installed.\<close>
theorem disable_extension_keeps_installed_witness:
  "ready_to_disable dependents_below a_enabled_manager \<and>
   extension_instances a_enabled_manager ''A'' \<noteq> None \<and>
   lookup_class a_enabled_manager ''A'' = Some (loaded_class (plain_def ''A'' []) True) \<and>
   installed (registration (loaded_class (plain_def ''A'' []) True)) \<and>
   dependents_below ''A'' < 2 \<and>
   (\<exists>s' c'. disable_extension 2 ''A'' a_enabled_manager = Some (Return (), s') \<and>
      lookup_class s' ''A'' = Some c' \<and> installed (registration c') \<and>
      \<not> enabled (registration c'))"
proof -
  have h: "extension_instances a_enabled_manager ''A'' \<noteq> None"
    "lookup_class a_enabled_manager ''A'' = Some (loaded_class (plain_def ''A'' []) True)"
    "installed (registration (loaded_class (plain_def ''A'' []) True))"
    "dependents_below ''A'' < 2"
    by (simp_all add: example_defs lookup_class_def)
  from disable_extension_keeps_installed[OF a_enabled_ready h]
  show ?thesis using a_enabled_ready h by blast
qed

text \<open>
  Claim C6, as the code has it. For a manager that is ready to disable and an enabled
  extension, \<^verbatim>\<open>disable_extension\<close> disables the dependents and then, in this order:
  removes the static asset tree if it exists (\<^verbatim>\<open>_uninstall_extension\<close>), shuts down the
  hooks of the instance, removes its admin URL patterns, removes its app from the installed
  apps if listed, resets the template tag cache, sends \<^verbatim>\<open>extension_uninitialized\<close>, deletes
  the instance, and saves the registration with \<open>enabled = false\<close>.
\<close>
theorem disable_extension_uninstalls_then_uninitializes:
  assumes rd: "ready_to_disable rk s"
    and e: "extension_instances s k = Some e" and c: "lookup_class s k = Some c"
    and n: "rk k \<le> n"
  shows "\<exists>ds s1 s'. get_dependent_extensions s k = Return ds \<and>
           disable_dependents n ds s = Some (Return (), s1) \<and>
           disable_extension (Suc n) k s = Some (Return (), s') \<and>
           extension_instances s1 k = Some e \<and> extension_instances s' k = None \<and>
           events s' = events s1
             @ (if info_htdocs_path (info c) \<in> fs s1
                then [Rmtree (info_htdocs_path (info c))] else [])
             @ map RemoveHook (hooks e)
             @ (case admin_urlpatterns e of None \<Rightarrow> [] | Some ps \<Rightarrow> map UrlPatternRemove ps)
             @ (if info_app_name (info c) \<in> set (installed_apps s1)
                then [InstalledAppsRemove (info_app_name (info c))] else [])
             @ [ResetTemplatetagsCache, ExtensionUninitialized k, InstanceDeleted k,
                RegistrationSave k False (installed (registration c))]"
proof -
  from disable_main_dependents[of rk _ _ n] rd e c n obtain ds s1 s' where
    f: "get_dependent_extensions s k = Return ds"
    "set ds = {d. d \<noteq> k \<and> (\<exists>cd. (d, cd) \<in> set (extension_classes s) \<and> k \<in> set (requirements cd))}"
    "disable_dependents n ds s = Some (Return (), s1)"
    "disabled_step rk (set ds) s s1"
    "extension_instances s1 k = Some e"
    "disable_extension (Suc n) k s = Some (Return (), s')"
    "disabled_step rk {k} s1 s'"
    "disabled_step rk {k} s s'"
    "extension_instances s' = (extension_instances s1)(k := None)"
    "events s' = events s1 @ teardown_events k c e s1"
    by (rule disable_enabled)
  from f(9) have "extension_instances s' k = None" by simp
  with f(1,3,5,6,10) show ?thesis unfolding teardown_events_def by blast
qed

text \<open>The statement for the manager in which \<open>A\<close> is enabled, with its asset tree in
  place and its app listed.\<close>
theorem disable_extension_uninstalls_then_uninitializes_witness:
  "ready_to_disable dependents_below a_enabled_manager \<and>
   extension_instances a_enabled_manager ''A'' = Some plain_extension \<and>
   lookup_class a_enabled_manager ''A'' = Some (loaded_class (plain_def ''A'' []) True) \<and>
   dependents_below ''A'' \<le> 1 \<and>
   (\<exists>s1 s'. disable_dependents 1 [] a_enabled_manager = Some (Return (), s1) \<and>
      disable_extension (Suc 1) ''A'' a_enabled_manager = Some (Return (), s') \<and>
      events s' = events s1 @
        [Rmtree ''/static/A'', InstalledAppsRemove ''A'', ResetTemplatetagsCache,
         ExtensionUninitialized ''A'', InstanceDeleted ''A'', RegistrationSave ''A'' False True])"
proof -
  have h: "extension_instances a_enabled_manager ''A'' = Some plain_extension"
    "lookup_class a_enabled_manager ''A'' = Some (loaded_class (plain_def ''A'' []) True)"
    "dependents_below ''A'' \<le> 1"
    by (simp_all add: example_defs lookup_class_def)
  from disable_extension_uninstalls_then_uninitializes[OF a_enabled_ready h]
  obtain ds s1 s' where x: "get_dependent_extensions a_enabled_manager ''A'' = Return ds"
    "disable_dependents 1 ds a_enabled_manager = Some (Return (), s1)"
    "disable_extension (Suc 1) ''A'' a_enabled_manager = Some (Return (), s')"
    "events s' = events s1
             @ (if info_htdocs_path (info (loaded_class (plain_def ''A'' []) True)) \<in> fs s1
                then [Rmtree (info_htdocs_path (info (loaded_class (plain_def ''A'' []) True)))] else [])
             @ map RemoveHook (hooks plain_extension)
             @ (case admin_urlpatterns plain_extension of None \<Rightarrow> [] | Some ps \<Rightarrow> map UrlPatternRemove ps)
             @ (if info_app_name (info (loaded_class (plain_def ''A'' []) True)) \<in> set (installed_apps s1)
                then [InstalledAppsRemove (info_app_name (info (loaded_class (plain_def ''A'' []) True)))] else [])
             @ [ResetTemplatetagsCache, ExtensionUninitialized ''A'', InstanceDeleted ''A'',
                RegistrationSave ''A'' False (installed (registration (loaded_class (plain_def ''A'' []) True)))]"
    by blast
  have "ds = []" using x(1)
    by (simp add: get_dependent_extensions_def get_installed_extension_def lookup_class_def
        example_defs)
  with x(2) have s1: "s1 = a_enabled_manager" by simp
  have "events s' = events s1 @
        [Rmtree ''/static/A'', InstalledAppsRemove ''A'', ResetTemplatetagsCache,
         ExtensionUninitialized ''A'', InstanceDeleted ''A'', RegistrationSave ''A'' False True]"
    using x(4) unfolding s1 by (simp add: example_defs)
  with x(2,3) \<open>ds = []\<close> a_enabled_ready h show ?thesis by blast
qed

text \<open>Claim C6 as stated fails: the asset tree of \<open>A\<close> is removed first, before the
  instance is uninitialized.\<close>
theorem disable_extension_order_counterexample:
  "map_option (events \<circ> snd) (disable_extension (Suc 0) ''A'' a_enabled_manager) =
     Some [Rmtree ''/static/A'', InstalledAppsRemove ''A'', ResetTemplatetagsCache,
           ExtensionUninitialized ''A'', InstanceDeleted ''A'', RegistrationSave ''A'' False True]"
  by (simp add: example_defs lookup_class_def get_dependent_extensions_def
      get_installed_extension_def uninstall_extension_def rmtree_def uninit_extension_def
      remove_from_installed_apps_def reset_templatetags_cache_def registration_save_def
      set_info_def set_registration_def update_class_def log_def Let_def)

text \<open>
  Claim C2, as the code has it. When \<^verbatim>\<open>enable_extension(id)\<close> has returned normally, a
  second \<^verbatim>\<open>enable_extension(id)\<close> returns \<^verbatim>\<open>None\<close> and leaves the whole state as it is:
  the instances, the URL patterns, the file system, the table of registrations and the log
  of effects are those the first call left, so nothing is installed, saved or registered a
  second time. The id has a live instance, and it is the instance the first call returned
  when that call returned one.
\<close>
theorem enable_extension_again_is_noop:
  assumes "enable_extension n k s = Some (Return r, s1)"
  shows "enable_extension (Suc m) k s1 = Some (Return None, s1) \<and>
         get_enabled_extension s1 k \<noteq> None \<and>
         (r = None \<or> r = get_enabled_extension s1 k)"
  using enable_extension_Return[OF assms]
  by (auto simp: get_enabled_extension_def domIff)

text \<open>The statement for the manager that knows \<open>A\<close>, not enabled.\<close>
theorem enable_extension_again_is_noop_witness:
  "enable_extension (Suc 0) ''A'' a_manager =
     Some (Return (Some plain_extension), snd (the (enable_extension (Suc 0) ''A'' a_manager))) \<and>
   enable_extension (Suc 0) ''A'' (snd (the (enable_extension (Suc 0) ''A'' a_manager))) =
     Some (Return None, snd (the (enable_extension (Suc 0) ''A'' a_manager))) \<and>
   get_enabled_extension (snd (the (enable_extension (Suc 0) ''A'' a_manager))) ''A''
     = Some plain_extension"
proof -
  from a_manager_enabled obtain s1 where
    s1: "enable_extension (Suc 0) ''A'' a_manager = Some (Return (Some plain_extension), s1)"
    by blast
  from enable_extension_again_is_noop[OF s1, of 0] s1 show ?thesis by auto
qed

text \<open>Claim C2 as stated fails: the first call returns the new instance of \<open>A\<close>, the
  second call returns \<^verbatim>\<open>None\<close>, not that instance.\<close>
theorem enable_extension_again_returns_None_counterexample:
  "map_option fst (enable_extension (Suc 0) ''A'' a_manager) = Some (Return (Some plain_extension)) \<and>
   map_option fst
     (enable_extension (Suc 0) ''A'' (snd (the (enable_extension (Suc 0) ''A'' a_manager))))
     = Some (Return None)"
proof -
  from a_manager_enabled obtain s1 where
    s1: "enable_extension (Suc 0) ''A'' a_manager = Some (Return (Some plain_extension), s1)"
    by blast
  from enable_extension_Return[OF s1] have "extension_instances s1 ''A'' \<noteq> None" by auto
  then have "enable_extension (Suc 0) ''A'' s1 = Some (Return None, s1)" by (simp add: domIff)
  with s1 show ?thesis by simp
qed

end
